theory Spec2Isabelle
  imports Main "HOL-Library.AList"
begin

section \<open>Python strings\<close>

text \<open>
  A Python \<open>str\<close> is modelled as a HOL \<open>string\<close>; each \<open>char\<close> stands for one code
  point below 256. The whitespace class is the one \<open>str.isspace\<close>, \<open>str.split\<close>,
  \<open>str.strip\<close> and the pattern \<open>\s\<close> of \<open>re\<close> share, restricted to that range.
\<close>

definition is_space :: "char \<Rightarrow> bool" where
  "is_space c = (of_char c \<in> {9, 10, 11, 12, 13, 28, 29, 30, 31, 32, 133, 160 :: nat})"

definition lower_char :: "char \<Rightarrow> char" where
  "lower_char c =
     (let n = (of_char c :: nat)
      in if (65 \<le> n \<and> n \<le> 90) \<or> (192 \<le> n \<and> n \<le> 222 \<and> n \<noteq> 215)
         then char_of (n + 32) else c)"

definition lower :: "string \<Rightarrow> string" where
  "lower s = map lower_char s"

fun startswith :: "string \<Rightarrow> string \<Rightarrow> bool" where
  "startswith s [] = True"
| "startswith [] (p # ps) = False"
| "startswith (c # cs) (p # ps) = (c = p \<and> startswith cs ps)"

definition endswith :: "string \<Rightarrow> string \<Rightarrow> bool" where
  "endswith s p = startswith (rev s) (rev p)"

text \<open>\<open>sub in s\<close>: the substring test.\<close>

fun contains :: "string \<Rightarrow> string \<Rightarrow> bool" where
  "contains [] sub = (sub = [])"
| "contains (c # cs) sub = (startswith (c # cs) sub \<or> contains cs sub)"

text \<open>\<open>s.split()\<close>: the maximal runs of non-whitespace characters, in order.\<close>

fun str_split_acc :: "string \<Rightarrow> string \<Rightarrow> string list" where
  "str_split_acc cur [] = (if cur = [] then [] else [cur])"
| "str_split_acc cur (c # cs) =
     (if is_space c then (if cur = [] then str_split_acc [] cs else cur # str_split_acc [] cs)
      else str_split_acc (cur @ [c]) cs)"

definition str_split :: "string \<Rightarrow> string list" where
  "str_split s = str_split_acc [] s"

text \<open>\<open>s.strip()\<close>.\<close>

definition strip :: "string \<Rightarrow> string" where
  "strip s = rev (dropWhile is_space (rev (dropWhile is_space s)))"

text \<open>The slice \<open>xs[i:j]\<close> for \<open>0 \<le> i\<close> and \<open>0 \<le> j\<close>.\<close>

definition slice :: "'a list \<Rightarrow> nat \<Rightarrow> nat \<Rightarrow> 'a list" where
  "slice xs i j = take (j - i) (drop i xs)"

text \<open>\<open>str(n)\<close> for a natural number: its decimal digits.\<close>

definition digit_char :: "nat \<Rightarrow> char" where
  "digit_char d = char_of (48 + d)"

fun str_nat :: "nat \<Rightarrow> string" where
  "str_nat n = (if n < 10 then [digit_char n] else str_nat (n div 10) @ [digit_char (n mod 10)])"

declare str_nat.simps [simp del]

definition str_int :: "int \<Rightarrow> string" where
  "str_int i = (if i < 0 then CHR ''-'' # str_nat (nat (- i)) else str_nat (nat i))"

section \<open>Description cleaning\<close>

text \<open>
  \<open>re.sub(r"<[^>]+>", "", text)\<close>: scanning from the left, a \<open><\<close> followed by at least one
  character other than \<open>>\<close> and then a \<open>>\<close> is deleted together with what lies between; the
  greedy class stops at the first \<open>>\<close>, so the match is decided by the run up to it.
\<close>

function strip_tags :: "string \<Rightarrow> string" where
  "strip_tags [] = []"
| "strip_tags (c # cs) =
     (if c = CHR ''<'' \<and> takeWhile (\<lambda>x. x \<noteq> CHR ''>'') cs \<noteq> []
         \<and> dropWhile (\<lambda>x. x \<noteq> CHR ''>'') cs \<noteq> []
      then strip_tags (tl (dropWhile (\<lambda>x. x \<noteq> CHR ''>'') cs))
      else c # strip_tags cs)"
  by pat_completeness auto
termination
proof (relation "measure length")
  show "wf (measure length)" by simp
next
  fix c :: char and cs :: string
  have "length (dropWhile (\<lambda>x. x \<noteq> CHR ''>'') cs) \<le> length cs"
    by (rule length_dropWhile_le)
  then have "length (tl (dropWhile (\<lambda>x. x \<noteq> CHR ''>'') cs)) \<le> length cs"
    by simp
  then show "(tl (dropWhile (\<lambda>x. x \<noteq> CHR ''>'') cs), c # cs) \<in> measure length"
    by simp
next
  fix c :: char and cs :: string
  show "(cs, c # cs) \<in> measure length" by simp
qed

text \<open>\<open>re.sub(r"\s+", " ", text)\<close>: every maximal run of whitespace becomes one space.\<close>

function collapse_ws :: "string \<Rightarrow> string" where
  "collapse_ws [] = []"
| "collapse_ws (c # cs) =
     (if is_space c then CHR '' '' # collapse_ws (dropWhile is_space cs)
      else c # collapse_ws cs)"
  by pat_completeness auto
termination
proof (relation "measure length")
  show "wf (measure length)" by simp
next
  fix c :: char and cs :: string
  have "length (dropWhile is_space cs) \<le> length cs"
    by (rule length_dropWhile_le)
  then show "(dropWhile is_space cs, c # cs) \<in> measure length"
    by simp
next
  fix c :: char and cs :: string
  show "(cs, c # cs) \<in> measure length" by simp
qed

text \<open>
  \<open>clean_description(text)\<close>. The argument is \<open>data.get("description")\<close>: \<open>None\<close> stands
  for a missing, null or otherwise falsy value, \<open>Some s\<close> for a string.
\<close>

definition clean_description :: "string option \<Rightarrow> string" where
  "clean_description text =
     (case text of
        None \<Rightarrow> []
      | Some s \<Rightarrow> if s = [] then [] else strip (collapse_ws (strip_tags s)))"

section \<open>Data model\<close>

text \<open>
  The scalar JSON values a field of a product may hold: what \<open>data.get("id")\<close>,
  \<open>data.get("price")\<close> and so on return. Numbers are integers here.
\<close>

datatype jval = JNull | JBool bool | JInt int | JStr string

text \<open>Python truthiness, as \<open>not v\<close> and \<open>if v:\<close> read a value.\<close>

fun truthy :: "jval \<Rightarrow> bool" where
  "truthy JNull = False"
| "truthy (JBool b) = b"
| "truthy (JInt i) = (i \<noteq> 0)"
| "truthy (JStr s) = (s \<noteq> [])"

text \<open>\<open>str(v)\<close>.\<close>

fun str_jval :: "jval \<Rightarrow> string" where
  "str_jval JNull = ''None''"
| "str_jval (JBool b) = (if b then ''True'' else ''False'')"
| "str_jval (JInt i) = str_int i"
| "str_jval (JStr s) = s"

text \<open>\<open>d.get(k)\<close> on a dictionary of scalar values: \<open>None\<close> for a missing key.\<close>

definition dict_get :: "(string \<times> jval) list \<Rightarrow> string \<Rightarrow> jval" where
  "dict_get d k = (case map_of d k of None \<Rightarrow> JNull | Some v \<Rightarrow> v)"

text \<open>
  The body of a 200 response as \<open>fetch_product\<close> consumes it: four scalar fields, the
  description (\<open>None\<close>: missing or falsy) and the list of image objects
  (\<open>data.get("images", [])\<close>).
\<close>

record payload =
  d_id :: jval
  d_name :: jval
  d_url_key :: jval
  d_price :: jval
  d_description :: "string option"
  d_images :: "(string \<times> jval) list list"

text \<open>The dictionary \<open>product_data\<close>, which is also one element of a BatchUnit file.\<close>

record product =
  p_id :: jval
  p_name :: jval
  p_url_key :: jval
  p_price :: jval
  p_description :: string
  p_images :: "jval list"

text \<open>One element of \<open>failed_products\<close> and of a failure partition file.\<close>

record failure =
  product_id :: string
  error_code :: string
  error_message :: string
  timestamp :: string

text \<open>
  \<open>CrawlStats\<close>. \<open>error_codes\<close> is a \<open>defaultdict(int)\<close>: a total function with default 0.
  The two wall-clock fields are left out.
\<close>

record crawl_stats =
  total_products :: nat
  completed :: nat
  failed :: nat
  error_codes :: "string \<Rightarrow> nat"
  products_with_missing_fields :: nat
  failed_products :: "failure list"

definition init_stats :: crawl_stats where
  "init_stats = \<lparr> total_products = 0, completed = 0, failed = 0, error_codes = (\<lambda>_. 0),
     products_with_missing_fields = 0, failed_products = [] \<rparr>"

definition add_success :: "crawl_stats \<Rightarrow> crawl_stats" where
  "add_success st = st\<lparr> completed := completed st + 1 \<rparr>"

definition add_missing_fields :: "crawl_stats \<Rightarrow> crawl_stats" where
  "add_missing_fields st = st\<lparr> products_with_missing_fields := products_with_missing_fields st + 1 \<rparr>"

text \<open>
  \<open>add_failure(status_code, product_id, error_message)\<close>; \<open>now\<close> is what
  \<open>datetime.now().isoformat()\<close> returns at the call. \<open>error_message\<close> is \<open>None\<close> or a string.
\<close>

definition add_failure :: "string \<Rightarrow> string \<Rightarrow> string option \<Rightarrow> string \<Rightarrow> crawl_stats \<Rightarrow> crawl_stats" where
  "add_failure status_code pid msg now st =
     (let st1 = st\<lparr> failed := failed st + 1 \<rparr>;
          st2 = (if status_code \<noteq> []
                 then st1\<lparr> error_codes := (error_codes st1)(status_code := error_codes st1 status_code + 1) \<rparr>
                 else st1)
      in if pid \<noteq> []
         then st2\<lparr> failed_products := failed_products st2 @
                [\<lparr> product_id = pid,
                   error_code = (if status_code \<noteq> [] then status_code else ''UNKNOWN''),
                   error_message = (case msg of None \<Rightarrow> [] | Some m \<Rightarrow> m),
                   timestamp = now \<rparr>] \<rparr>
         else st2)"

section \<open>Fetch worker\<close>

text \<open>
  What one attempt \<open>session.get(url, timeout=20)\<close> meets. \<open>Http status body\<close>: a response
  arrived; \<open>body\<close> says what reading it as a product gives when the status is 200, either
  the payload or an exception (from \<open>resp.json()\<close> or from building \<open>product_data\<close>) with
  its \<open>str(e)\<close>. \<open>TimeoutError\<close>: \<open>asyncio.TimeoutError\<close>. \<open>Raised m\<close>: any other
  \<open>Exception\<close>, \<open>m\<close> its \<open>str(e)\<close>.
\<close>

datatype body = Payload payload | Unreadable string

datatype outcome = Http nat body | TimeoutError | Raised string

text \<open>
  The remote service and the clock: the outcome of the attempt with a given 0-based index
  for a given identifier, and the timestamp read when the failure of an identifier is
  recorded.
\<close>

record env =
  respond :: "string \<Rightarrow> nat \<Rightarrow> outcome"
  clock :: "string \<Rightarrow> string"

text \<open>What a run does to the outside, in order: requests and sleeps (in seconds).\<close>

datatype event = Request string nat | Sleep int

text \<open>
  The exceptions that can leave a function of the crawler. Where one is raised, the model
  returns it on the left together with the tracker and the trace (or the whole state) as
  they are at that moment.
\<close>

datatype py_error = AttributeError | ZeroDivisionError | ValueError

definition has_missing_fields :: "product \<Rightarrow> bool" where
  "has_missing_fields p =
     (if \<not> truthy (p_id p) then True
      else if \<not> truthy (p_name p) then True
      else if \<not> truthy (p_url_key p) then True
      else if \<not> truthy (p_price p) then True
      else if p_description p = [] then True
      else if length (p_images p) = 0 then True
      else False)"

definition make_product :: "payload \<Rightarrow> product" where
  "make_product data =
     \<lparr> p_id = d_id data, p_name = d_name data, p_url_key = d_url_key data,
       p_price = d_price data,
       p_description = clean_description (d_description data),
       p_images = map (\<lambda>img. dict_get img ''base_url'') (d_images data) \<rparr>"

text \<open>\<open>str(last_error)\<close> where \<open>last_error\<close> is \<open>None\<close> or a string.\<close>

definition str_opt :: "string option \<Rightarrow> string" where
  "str_opt e = (case e of None \<Rightarrow> ''None'' | Some m \<Rightarrow> m)"

text \<open>
  The classification after the loop (lines 121 to 123). \<open>last_error.split()\<close> on \<open>None\<close>
  would raise \<open>AttributeError\<close>.
\<close>

definition classify :: "string option \<Rightarrow> py_error + string" where
  "classify last_error =
     (let code0 = (if contains (lower (str_opt last_error)) ''timeout'' then ''TIMEOUT'' else ''ERROR'')
      in if contains (str_opt last_error) ''HTTP''
         then (case last_error of
                 None \<Rightarrow> Inl AttributeError
               | Some m \<Rightarrow> Inr (if length (str_split m) > 1 then str_split m ! 1 else ''HTTP_ERROR''))
         else Inr code0)"

text \<open>
  The retry loop \<open>for attempt in range(self.max_retries)\<close>, over the attempt indices still
  to run. The result is the product on success, else the last error after the last attempt.
\<close>

fun attempt_loop ::
  "int \<Rightarrow> env \<Rightarrow> string \<Rightarrow> nat list \<Rightarrow> string option \<Rightarrow> crawl_stats \<Rightarrow> event list
     \<Rightarrow> product option \<times> string option \<times> crawl_stats \<times> event list" where
  "attempt_loop max_retries e pid [] last_error st log = (None, last_error, st, log)"
| "attempt_loop max_retries e pid (attempt # rest) last_error st log =
     (let log1 = log @ [Request pid attempt];
          pause = (if int attempt < max_retries - 1 then [Sleep (1 * (int attempt + 1))] else [])
      in case respond e pid attempt of
           Http status b \<Rightarrow>
             if status = 200 then
               (case b of
                  Payload data \<Rightarrow>
                    (let product_data = make_product data;
                         st1 = (if has_missing_fields product_data then add_missing_fields st else st)
                     in (Some product_data, last_error, add_success st1, log1))
                | Unreadable m \<Rightarrow>
                    attempt_loop max_retries e pid rest (Some (take 100 m)) st (log1 @ pause))
             else attempt_loop max_retries e pid rest (Some (''HTTP '' @ str_nat status)) st (log1 @ pause)
         | TimeoutError \<Rightarrow>
             attempt_loop max_retries e pid rest (Some ''Request timeout'') st (log1 @ pause)
         | Raised m \<Rightarrow>
             attempt_loop max_retries e pid rest (Some (take 100 m)) st (log1 @ pause))"

definition fetch_product ::
  "int \<Rightarrow> env \<Rightarrow> string \<Rightarrow> crawl_stats \<Rightarrow> event list
     \<Rightarrow> (py_error \<times> crawl_stats \<times> event list) + (product option \<times> crawl_stats \<times> event list)" where
  "fetch_product max_retries e pid st log =
     (case attempt_loop max_retries e pid [0..<nat max_retries] None st log of
        (Some product_data, last_error, st1, log1) \<Rightarrow> Inr (Some product_data, st1, log1)
      | (None, last_error, st1, log1) \<Rightarrow>
          (case classify last_error of
             Inl err \<Rightarrow> Inl (err, st1, log1)
           | Inr code \<Rightarrow> Inr (None, add_failure code pid last_error (clock e pid) st1, log1)))"

section \<open>Output folder\<close>

text \<open>
  The files of the output folder that the crawler reads or writes, by the three name
  patterns of the code. \<open>batch_units\<close>: the files \<open>products_<key>.json\<close>, in the order
  \<open>os.listdir\<close> yields them, each with its key and what \<open>json.load\<close> gives (\<open>None\<close>: the
  file is unreadable or malformed, so that reading it raises). \<open>partitions\<close>: the files
  \<open>failed_<key>.json\<close> likewise. \<open>all_failed\<close>: the content of
  \<open>all_failed_products.json\<close>, \<open>None\<close> while the file is absent. Serialising with
  \<open>json.dumps\<close> and parsing again is the identity on these contents.
\<close>

record folder =
  batch_units :: "(string \<times> product list option) list"
  partitions :: "(string \<times> failure list option) list"
  all_failed :: "failure list option"

text \<open>\<open>os.path.exists\<close> for a file of one of the two listed kinds.\<close>

definition exists_file :: "(string \<times> 'a) list \<Rightarrow> string \<Rightarrow> bool" where
  "exists_file files k = (k \<in> set (map fst files))"

text \<open>\<open>save_batch(products, batch_index)\<close> writes \<open>products_<batch_index+1>.json\<close>.\<close>

definition save_batch :: "product list \<Rightarrow> nat \<Rightarrow> folder \<Rightarrow> folder" where
  "save_batch products batch_index fo =
     fo\<lparr> batch_units := AList.update (str_nat (batch_index + 1)) (Some products) (batch_units fo) \<rparr>"

text \<open>
  The grouping loop of \<open>save_failed_products_by_error\<close>: \<open>failed_by_error[code].append(r)\<close>
  on a dictionary that keeps its keys in the order of first insertion.
\<close>

fun group_append :: "string \<Rightarrow> failure \<Rightarrow> (string \<times> failure list) list \<Rightarrow> (string \<times> failure list) list" where
  "group_append code r [] = [(code, [r])]"
| "group_append code r ((c, rs) # g) =
     (if c = code then (c, rs @ [r]) # g else (c, rs) # group_append code r g)"

definition group_by_error :: "failure list \<Rightarrow> (string \<times> failure list) list" where
  "group_by_error records = foldl (\<lambda>g r. group_append (error_code r) r g) [] records"

text \<open>One turn of the loop over the groups (lines 31 to 50): load, merge, write back.\<close>

definition merge_partition :: "string \<times> failure list \<Rightarrow> folder \<Rightarrow> folder" where
  "merge_partition grp fo =
     (let filename = lower (fst grp);
          existing_failed = (case map_of (partitions fo) filename of
                               Some (Some rs) \<Rightarrow> rs
                             | _ \<Rightarrow> []);
          existing_ids = set (map product_id existing_failed);
          new_failed = filter (\<lambda>p. product_id p \<notin> existing_ids) (snd grp);
          all_failed_here = existing_failed @ new_failed
      in fo\<lparr> partitions := AList.update filename (Some all_failed_here) (partitions fo) \<rparr>)"

definition save_failed_products_by_error :: "failure list \<Rightarrow> folder \<Rightarrow> folder" where
  "save_failed_products_by_error records fo =
     (if records = [] then fo
      else (foldl (\<lambda>f grp. merge_partition grp f) fo (group_by_error records))
             \<lparr> all_failed := Some records \<rparr>)"

text \<open>\<open>load_existing_results(stats, has_missing_fields)\<close>: the two replay loops.\<close>

definition replay_product :: "crawl_stats \<Rightarrow> product \<Rightarrow> crawl_stats" where
  "replay_product st p =
     (let st1 = add_success st in if has_missing_fields p then add_missing_fields st1 else st1)"

definition replay_failure :: "crawl_stats \<Rightarrow> failure \<Rightarrow> crawl_stats" where
  "replay_failure st r =
     st\<lparr> failed := failed st + 1,
        error_codes := (error_codes st)(error_code r := error_codes st (error_code r) + 1),
        failed_products := failed_products st @ [r] \<rparr>"

definition load_existing_results :: "folder \<Rightarrow> crawl_stats \<Rightarrow> crawl_stats" where
  "load_existing_results fo st =
     (let st1 = foldl (\<lambda>s file. case snd file of None \<Rightarrow> s | Some ps \<Rightarrow> foldl replay_product s ps)
                  st (batch_units fo)
      in foldl (\<lambda>s file. case snd file of None \<Rightarrow> s | Some rs \<Rightarrow> foldl replay_failure s rs)
           st1 (partitions fo))"

section \<open>Deduplication and resume index\<close>

text \<open>\<open>list(dict.fromkeys(items))\<close>: the first occurrence of each item, in order.\<close>

fun deduplicate_list :: "'a list \<Rightarrow> 'a list" where
  "deduplicate_list [] = []"
| "deduplicate_list (x # xs) = x # filter (\<lambda>y. y \<noteq> x) (deduplicate_list xs)"

definition get_already_crawled_ids :: "folder \<Rightarrow> string set" where
  "get_already_crawled_ids fo =
     foldl (\<lambda>crawled file.
              case snd file of
                None \<Rightarrow> crawled
              | Some ps \<Rightarrow> foldl (\<lambda>acc p. if truthy (p_id p) then insert (str_jval (p_id p)) acc else acc)
                             crawled ps)
       {} (batch_units fo)"

section \<open>Scheduler\<close>

record config =
  batch_size :: int
  concurrent_requests :: int
  max_retries :: int

text \<open>
  The crawler object and the world it acts on: the tracker, the work list, the output
  folder and the trace of requests and sleeps.
\<close>

record state =
  stats :: crawl_stats
  product_ids :: "string list"
  fs :: folder
  events :: "event list"

definition deduplicate_input_ids :: "state \<Rightarrow> state" where
  "deduplicate_input_ids w =
     (let ids = deduplicate_list (product_ids w)
      in w\<lparr> product_ids := ids, stats := (stats w)\<lparr> total_products := length ids \<rparr> \<rparr>)"

definition filter_uncrawled_products :: "state \<Rightarrow> state" where
  "filter_uncrawled_products w =
     (let already_crawled = get_already_crawled_ids (fs w)
      in if already_crawled \<noteq> {}
         then w\<lparr> product_ids := filter (\<lambda>pid. pid \<notin> already_crawled) (product_ids w) \<rparr>
         else w)"

text \<open>
  \<open>range(0, n, step)\<close> for \<open>n \<ge> 0\<close>: \<open>ValueError\<close> for step 0, empty for a negative step.
\<close>

definition range_step :: "nat \<Rightarrow> int \<Rightarrow> py_error + nat list" where
  "range_step n step =
     (if step = 0 then Inl ValueError
      else if step < 0 then Inr []
      else Inr (map (\<lambda>k. k * nat step) [0..<(n + nat step - 1) div nat step]))"

text \<open>
  \<open>gather\<close> over one window. The workers of a window are run one after the other in the
  order of the window; the results come back in that order, as \<open>gather\<close> returns them.
\<close>

fun gather ::
  "int \<Rightarrow> env \<Rightarrow> string list \<Rightarrow> crawl_stats \<Rightarrow> event list
     \<Rightarrow> (py_error \<times> crawl_stats \<times> event list) + (product option list \<times> crawl_stats \<times> event list)" where
  "gather mr e [] st log = Inr ([], st, log)"
| "gather mr e (pid # pids) st log =
     (case fetch_product mr e pid st log of
        Inl err \<Rightarrow> Inl err
      | Inr (r, st1, log1) \<Rightarrow>
          (case gather mr e pids st1 log1 of
             Inl err \<Rightarrow> Inl err
           | Inr (rs, st2, log2) \<Rightarrow> Inr (r # rs, st2, log2)))"

text \<open>The loop of \<open>fetch_batch\<close> over the window starts \<open>i\<close>.\<close>

fun fetch_windows ::
  "config \<Rightarrow> env \<Rightarrow> string list \<Rightarrow> nat list \<Rightarrow> product list \<Rightarrow> crawl_stats \<Rightarrow> event list
     \<Rightarrow> (py_error \<times> crawl_stats \<times> event list) + (product list \<times> crawl_stats \<times> event list)" where
  "fetch_windows cfg e ids [] results st log = Inr (results, st, log)"
| "fetch_windows cfg e ids (i # is) results st log =
     (let chunk_ids = slice ids i (i + nat (concurrent_requests cfg))
      in case gather (max_retries cfg) e chunk_ids st log of
           Inl err \<Rightarrow> Inl err
         | Inr (chunk_results, st1, log1) \<Rightarrow>
             fetch_windows cfg e ids is (results @ List.map_filter (\<lambda>r. r) chunk_results) st1 log1)"

definition fetch_batch ::
  "config \<Rightarrow> env \<Rightarrow> string list \<Rightarrow> crawl_stats \<Rightarrow> event list
     \<Rightarrow> (py_error \<times> crawl_stats \<times> event list) + (product list \<times> crawl_stats \<times> event list)" where
  "fetch_batch cfg e ids st log =
     (case range_step (length ids) (concurrent_requests cfg) of
        Inl err \<Rightarrow> Inl (err, st, log)
      | Inr starts \<Rightarrow> fetch_windows cfg e ids starts [] st log)"

text \<open>The loop of \<open>crawl\<close> over the batch starts (lines 170 to 199).\<close>

fun batch_loop :: "config \<Rightarrow> env \<Rightarrow> nat list \<Rightarrow> state \<Rightarrow> (py_error \<times> state) + state" where
  "batch_loop cfg e [] w = Inr w"
| "batch_loop cfg e (start # starts) w =
     (let stop = min (start + nat (batch_size cfg)) (length (product_ids w));
          batch_ids = slice (product_ids w) start stop;
          batch_index = start div nat (batch_size cfg);
          batch_num = batch_index + 1
      in if exists_file (batch_units (fs w)) (str_nat batch_num)
         then batch_loop cfg e starts w
         else (case fetch_batch cfg e batch_ids (stats w) (events w) of
                 Inl (err, st1, log1) \<Rightarrow> Inl (err, w\<lparr> stats := st1, events := log1 \<rparr>)
               | Inr (products, st1, log1) \<Rightarrow>
                   batch_loop cfg e starts
                     (w\<lparr> stats := st1,
                        fs := save_batch products batch_index (fs w),
                        events := log1 @ [Sleep 2] \<rparr>)))"

text \<open>
  \<open>crawl()\<close>. \<open>total_batches\<close> (line 165) divides by the batch size, so a batch size of 0
  raises \<open>ZeroDivisionError\<close> there.
\<close>

definition crawl :: "config \<Rightarrow> env \<Rightarrow> state \<Rightarrow> (py_error \<times> state) + state" where
  "crawl cfg e w0 =
     (let w1 = deduplicate_input_ids w0;
          w2 = w1\<lparr> stats := load_existing_results (fs w1) (stats w1) \<rparr>;
          w3 = filter_uncrawled_products w2
      in if product_ids w3 = [] then Inr w3
         else if batch_size cfg = 0 then Inl (ZeroDivisionError, w3)
         else (case range_step (length (product_ids w3)) (batch_size cfg) of
                 Inl err \<Rightarrow> Inl (err, w3)
               | Inr starts \<Rightarrow>
                   (case batch_loop cfg e starts w3 of
                      Inl err \<Rightarrow> Inl err
                    | Inr w4 \<Rightarrow>
                        Inr (w4\<lparr> fs := save_failed_products_by_error
                                         (failed_products (stats w4)) (fs w4) \<rparr>))))"

text \<open>The state a call ends in, whether it returns or raises.\<close>

definition final_state :: "(py_error \<times> state) + state \<Rightarrow> state" where
  "final_state r = (case r of Inl (err, w) \<Rightarrow> w | Inr w \<Rightarrow> w)"

text \<open>A fresh crawler object after \<open>load_product_ids\<close>, about to run on a folder.\<close>

definition start_state :: "string list \<Rightarrow> folder \<Rightarrow> state" where
  "start_state ids fo =
     \<lparr> stats = init_stats\<lparr> total_products := length ids \<rparr>, product_ids = ids,
       fs = fo, events = [] \<rparr>"

section \<open>Reading a trace\<close>

fun requests_of :: "event list \<Rightarrow> (string \<times> nat) list" where
  "requests_of [] = []"
| "requests_of (Request pid a # evs) = (pid, a) # requests_of evs"
| "requests_of (Sleep d # evs) = requests_of evs"

fun sleeps_of :: "event list \<Rightarrow> int list" where
  "sleeps_of [] = []"
| "sleeps_of (Request pid a # evs) = sleeps_of evs"
| "sleeps_of (Sleep d # evs) = d # sleeps_of evs"


section \<open>The error taxonomy as the specification words it\<close>

text \<open>
  The specification names three kinds: the status-like token an error message carries, if
  it carries one; else \<open>TIMEOUT\<close> for a timeout; else \<open>ERROR\<close>. A message carries a token
  when it mentions \<open>HTTP\<close> and has a second whitespace-separated word, as \<open>HTTP 500\<close> does.
\<close>

definition status_token :: "string \<Rightarrow> string option" where
  "status_token m =
     (if contains m ''HTTP''
      then (case str_split m of a # t # ts \<Rightarrow> Some t | _ \<Rightarrow> None)
      else None)"

definition spec_error_kind :: "string \<Rightarrow> string" where
  "spec_error_kind m =
     (case status_token m of
        Some t \<Rightarrow> t
      | None \<Rightarrow> if contains (lower m) ''timeout'' then ''TIMEOUT'' else ''ERROR'')"

section \<open>Incompleteness as the specification words it\<close>

text \<open>
  The specification calls a record incomplete when one of \<open>id\<close>, \<open>name\<close>, \<open>url_key\<close>,
  \<open>price\<close>, \<open>description\<close> is empty or absent, or \<open>images\<close> is empty. A scalar is absent
  when it is null and empty when it is the empty string.
\<close>

definition spec_empty_or_absent :: "jval \<Rightarrow> bool" where
  "spec_empty_or_absent v = (v = JNull \<or> v = JStr [])"

definition spec_incomplete :: "product \<Rightarrow> bool" where
  "spec_incomplete p =
     (spec_empty_or_absent (p_id p) \<or> spec_empty_or_absent (p_name p)
      \<or> spec_empty_or_absent (p_url_key p) \<or> spec_empty_or_absent (p_price p)
      \<or> p_description p = [] \<or> p_images p = [])"

section \<open>What a run fetches and records\<close>

text \<open>
  The record one worker returns for an identifier (\<open>None\<close> after a failure), and the
  FailureRecord it appends to the tracker (\<open>None\<close> after a success, and for the empty
  identifier).
\<close>

definition worker_result :: "int \<Rightarrow> env \<Rightarrow> string \<Rightarrow> product option" where
  "worker_result mr e pid = fst (attempt_loop mr e pid [0..<nat mr] None init_stats [])"

definition worker_failure :: "int \<Rightarrow> env \<Rightarrow> string \<Rightarrow> failure option" where
  "worker_failure mr e pid =
     (case fetch_product mr e pid init_stats [] of
        Inr (None, st, log) \<Rightarrow> (case failed_products st of [] \<Rightarrow> None | r # rs \<Rightarrow> Some r)
      | _ \<Rightarrow> None)"

text \<open>The record a worker appends, as a list of length at most one.\<close>

definition failure_list :: "failure option \<Rightarrow> failure list" where
  "failure_list x = (case x of None \<Rightarrow> [] | Some r \<Rightarrow> [r])"

text \<open>The identifiers a batch really fetches: all of them, or none when the window width is negative.\<close>

definition fetched :: "config \<Rightarrow> string list \<Rightarrow> string list" where
  "fetched cfg ids = (if 0 < concurrent_requests cfg then ids else [])"

text \<open>The records of the identifiers \<open>ids\<close> that are fetched with success, in order.\<close>

definition successes :: "int \<Rightarrow> env \<Rightarrow> string list \<Rightarrow> product list" where
  "successes mr e ids = List.map_filter (worker_result mr e) ids"

text \<open>The batch with 0-based index \<open>k\<close> of the work list \<open>ids\<close>, for batch size \<open>b\<close>.\<close>

definition batch :: "nat \<Rightarrow> string list \<Rightarrow> nat \<Rightarrow> string list" where
  "batch b ids k = slice ids (k * b) (min (k * b + b) (length ids))"

text \<open>
  The work list of a run: the input, deduplicated and filtered against the identifiers
  already crawled.
\<close>

definition pending :: "string list \<Rightarrow> folder \<Rightarrow> string list" where
  "pending ids fo = filter (\<lambda>pid. pid \<notin> get_already_crawled_ids fo) (deduplicate_list ids)"

text \<open>The state of a fresh crawler on the folder \<open>fo\<close> when the batch loop starts.\<close>

definition prepared :: "string list \<Rightarrow> folder \<Rightarrow> state" where
  "prepared ids fo =
     filter_uncrawled_products
       ((deduplicate_input_ids (start_state ids fo))
          \<lparr> stats := load_existing_results fo (stats (deduplicate_input_ids (start_state ids fo))) \<rparr>)"

text \<open>No file \<open>products_<k+1>.json\<close> is in the folder.\<close>

definition absent :: "folder \<Rightarrow> nat \<Rightarrow> bool" where
  "absent fo k = (\<not> exists_file (batch_units fo) (str_nat (k + 1)))"

text \<open>
  The batch indices a run on the folder \<open>fo\<close> with work list \<open>ids\<close> fetches and writes, the
  BatchUnit files it writes, and the FailureRecords its workers append.
\<close>

definition processed :: "config \<Rightarrow> folder \<Rightarrow> string list \<Rightarrow> nat list" where
  "processed cfg fo ids =
     (if 0 < batch_size cfg \<and> concurrent_requests cfg \<noteq> 0
      then filter (absent fo) [0..<(length ids + nat (batch_size cfg) - 1) div nat (batch_size cfg)]
      else [])"

definition written :: "config \<Rightarrow> env \<Rightarrow> folder \<Rightarrow> string list \<Rightarrow> (string \<times> product list option) list" where
  "written cfg e fo ids =
     map (\<lambda>k. (str_nat (k + 1),
                Some (successes (max_retries cfg) e (fetched cfg (batch (nat (batch_size cfg)) ids k)))))
       (processed cfg fo ids)"

definition run_failures :: "config \<Rightarrow> env \<Rightarrow> folder \<Rightarrow> string list \<Rightarrow> failure list" where
  "run_failures cfg e fo ids =
     List.map_filter (worker_failure (max_retries cfg) e)
       (concat (map (\<lambda>k. fetched cfg (batch (nat (batch_size cfg)) ids k)) (processed cfg fo ids)))"

text \<open>The records \<open>load_existing_results\<close> replays from the failure partitions.\<close>

definition replayed :: "folder \<Rightarrow> failure list" where
  "replayed fo = concat (map (\<lambda>file. case snd file of None \<Rightarrow> [] | Some rs \<Rightarrow> rs) (partitions fo))"

text \<open>
  The state of the failure partitions that the crawler itself produces: no two files of
  one name, and in each readable partition at most one record for a product, every
  record under the file of its own (lower-cased) error code.
\<close>

definition partitions_ok :: "folder \<Rightarrow> bool" where
  "partitions_ok fo =
     (distinct (map fst (partitions fo))
      \<and> list_all (\<lambda>file. case snd file of
                    None \<Rightarrow> True
                  | Some rs \<Rightarrow> distinct (map product_id rs)
                      \<and> list_all (\<lambda>r. lower (error_code r) = fst file) rs)
           (partitions fo))"

text \<open>
  A sequence of runs on one output folder, each a fresh crawler with its own
  configuration, remote behaviour and input list.
\<close>

fun run_all :: "(config \<times> env \<times> string list) list \<Rightarrow> folder \<Rightarrow> folder" where
  "run_all [] fo = fo"
| "run_all ((cfg, e, ids) # runs) fo =
     run_all runs (fs (final_state (crawl cfg e (start_state ids fo))))"

section \<open>The fetch worker under persistent failure\<close>

lemma requests_of_append: "requests_of (xs @ ys) = requests_of xs @ requests_of ys"
  by (induction xs rule: requests_of.induct) simp_all

lemma sleeps_of_append: "sleeps_of (xs @ ys) = sleeps_of xs @ sleeps_of ys"
  by (induction xs rule: sleeps_of.induct) simp_all

lemma classify_500: "classify (Some ''HTTP 500'') = Inr ''500''"
  by code_simp

lemma str_nat_500: "str_nat 500 = ''500''"
  by code_simp






section \<open>Description cleaning: the normal form\<close>

lemma collapse_ws_hd:
  "cs \<noteq> [] \<Longrightarrow> \<not> is_space (hd cs) \<Longrightarrow> collapse_ws cs \<noteq> [] \<and> hd (collapse_ws cs) = hd cs"
  by (cases cs) simp_all

lemma dropWhile_space_hd: "dropWhile is_space cs \<noteq> [] \<Longrightarrow> \<not> is_space (hd (dropWhile is_space cs))"
  using hd_dropWhile by blast

lemma collapse_ws_Nil: "collapse_ws cs = [] \<longleftrightarrow> cs = []"
  by (cases cs) simp_all

lemma collapse_ws_single_spaces:
  "successively (\<lambda>a b. \<not> (is_space a \<and> is_space b)) (collapse_ws cs)"
proof (induction cs rule: collapse_ws.induct)
  case 1
  show ?case by simp
next
  case (2 c cs)
  show ?case
  proof (cases "is_space c")
    case True
    let ?rest = "dropWhile is_space cs"
    have "?rest = [] \<or> \<not> is_space (hd (collapse_ws ?rest))"
    proof (cases "?rest = []")
      case True
      then show ?thesis by (rule disjI1)
    next
      case False
      then have "\<not> is_space (hd ?rest)" by (rule dropWhile_space_hd)
      with False have "hd (collapse_ws ?rest) = hd ?rest" by (rule collapse_ws_hd [THEN conjunct2])
      with \<open>\<not> is_space (hd ?rest)\<close> show ?thesis by (simp del: dropWhile_eq_Nil_conv)
    qed
    moreover have "(collapse_ws ?rest = []) = (?rest = [])" by (rule collapse_ws_Nil)
    ultimately show ?thesis using True 2 by (simp add: successively_Cons)
  next
    case False
    with 2 show ?thesis by (simp add: successively_Cons)
  qed
qed

lemma successively_dropWhile: "successively P xs \<Longrightarrow> successively P (dropWhile Q xs)"
  by (induction xs) (auto simp: successively_Cons)

lemma strip_single_spaces:
  assumes "successively (\<lambda>a b. \<not> (is_space a \<and> is_space b)) s"
  shows "successively (\<lambda>a b. \<not> (is_space a \<and> is_space b)) (strip s)"
proof -
  have "successively (\<lambda>a b. \<not> (is_space a \<and> is_space b)) (dropWhile is_space s)"
    using assms by (rule successively_dropWhile)
  then have "successively (\<lambda>a b. \<not> (is_space b \<and> is_space a)) (rev (dropWhile is_space s))"
    by simp
  then have "successively (\<lambda>a b. \<not> (is_space b \<and> is_space a))
               (dropWhile is_space (rev (dropWhile is_space s)))"
    by (rule successively_dropWhile)
  then show ?thesis by (simp add: strip_def)
qed

lemma strip_last: "strip s \<noteq> [] \<Longrightarrow> \<not> is_space (last (strip s))"
proof -
  assume ne: "strip s \<noteq> []"
  let ?r = "dropWhile is_space (rev (dropWhile is_space s))"
  from ne have "?r \<noteq> []" by (simp add: strip_def)
  then have "\<not> is_space (hd ?r)" by (rule dropWhile_space_hd)
  moreover have "last (strip s) = hd ?r" using \<open>?r \<noteq> []\<close> by (simp add: strip_def last_rev)
  ultimately show ?thesis by simp
qed

lemma dropWhile_rev_subset: "set (dropWhile P xs) \<subseteq> set xs"
  by (induction xs) auto

lemma strip_hd: "strip s \<noteq> [] \<Longrightarrow> \<not> is_space (hd (strip s))"
proof -
  assume ne: "strip s \<noteq> []"
  let ?d = "dropWhile is_space s"
  let ?r = "dropWhile is_space (rev ?d)"
  from ne have rne: "?r \<noteq> []" by (simp add: strip_def)
  then have dne: "?d \<noteq> []" by (auto simp del: dropWhile_eq_Nil_conv)
  then have nsp: "\<not> is_space (hd ?d)" by (rule dropWhile_space_hd)
  obtain x xs where d: "?d = x # xs" using dne by (cases ?d) auto
  with nsp have x: "\<not> is_space x" by simp
  have "rev ?d = rev xs @ [x]" using d by simp
  then have "?r = dropWhile is_space (rev xs) @ [x]"
    using x by (simp add: dropWhile_append)
  then have "strip s = x # rev (dropWhile is_space (rev xs))" by (simp add: strip_def)
  with x show ?thesis by simp
qed

text \<open>
  C10. \<open>clean_description\<close> returns the empty string for \<open>None\<close> and for the empty
  string, and for every input its result neither starts nor ends with a whitespace
  character and has no two whitespace characters in a row.
\<close>

theorem clean_description_normalised:
  "clean_description None = [] \<and> clean_description (Some []) = []
   \<and> (clean_description text \<noteq> [] \<longrightarrow>
         \<not> is_space (hd (clean_description text)) \<and> \<not> is_space (last (clean_description text)))
   \<and> (\<forall>i. Suc i < length (clean_description text) \<longrightarrow>
         \<not> (is_space (clean_description text ! i) \<and> is_space (clean_description text ! Suc i)))"
proof -
  have a: "clean_description None = [] \<and> clean_description (Some []) = []"
    by (simp add: clean_description_def)
  have b: "clean_description text \<noteq> [] \<longrightarrow>
         \<not> is_space (hd (clean_description text)) \<and> \<not> is_space (last (clean_description text))"
    using strip_hd strip_last by (auto simp: clean_description_def split: option.splits if_splits)
  have "successively (\<lambda>a b. \<not> (is_space a \<and> is_space b)) (clean_description text)"
    using strip_single_spaces [OF collapse_ws_single_spaces]
    by (auto simp: clean_description_def split: option.splits)
  then have c: "\<forall>i. Suc i < length (clean_description text) \<longrightarrow>
         \<not> (is_space (clean_description text ! i) \<and> is_space (clean_description text ! Suc i))"
    by (simp only: successively_conv_nth)
  from a b c show ?thesis by blast
qed

lemma clean_example:
  "clean_description (Some (''  <b>Hi</b>'' @ [CHR 0x09, CHR 0x0A] @ ''there <> a<b  '')) = ''Hi there <> a<b''"
  by (simp add: clean_description_def strip_def is_space_def)

theorem clean_description_normalised_witness:
  "clean_description (Some (''  <b>Hi</b>'' @ [CHR 0x09, CHR 0x0A] @ ''there <> a<b  '')) = ''Hi there <> a<b''
   \<and> \<not> is_space (hd ''Hi there <> a<b'') \<and> \<not> is_space (last ''Hi there <> a<b'')
   \<and> \<not> (is_space (''Hi there <> a<b'' ! 2) \<and> is_space (''Hi there <> a<b'' ! Suc 2))"
proof -
  let ?t = "Some (''  <b>Hi</b>'' @ [CHR 0x09, CHR 0x0A] @ ''there <> a<b  '')"
  have e: "clean_description ?t = ''Hi there <> a<b''" by (rule clean_example)
  from clean_description_normalised [of ?t] show ?thesis
    unfolding e by (simp add: is_space_def)
qed
section \<open>Error classification\<close>

lemma digit_char_not_space: "d < 10 \<Longrightarrow> \<not> is_space (digit_char d)"
proof -
  assume "d < 10"
  then have "(48 + d) mod 256 = 48 + d" by simp
  then have "(of_char (digit_char d) :: nat) = 48 + d"
    by (simp add: digit_char_def)
  with \<open>d < 10\<close> show ?thesis by (simp add: is_space_def)
qed

lemma str_nat_no_space: "\<forall>c \<in> set (str_nat n). \<not> is_space c"
proof (induction n rule: str_nat.induct)
  case (1 n)
  show ?case
  proof (cases "n < 10")
    case True
    then show ?thesis by (simp add: str_nat.simps [of n] digit_char_not_space)
  next
    case False
    have "n mod 10 < 10" by simp
    then have "\<not> is_space (digit_char (n mod 10))" by (rule digit_char_not_space)
    with False 1 show ?thesis by (simp add: str_nat.simps [of n])
  qed
qed

lemma str_nat_not_Nil: "str_nat n \<noteq> []"
  by (simp add: str_nat.simps [of n])

lemma str_split_acc_word:
  "\<forall>c \<in> set w. \<not> is_space c \<Longrightarrow> str_split_acc cur (w @ rest) = str_split_acc (cur @ w) rest"
  by (induction w arbitrary: cur) simp_all

lemma str_split_http_status: "str_split (''HTTP '' @ str_nat n) = [''HTTP'', str_nat n]"
proof -
  have sp: "is_space CHR '' ''" by (simp add: is_space_def)
  have h: "\<forall>c \<in> set ''HTTP''. \<not> is_space c" by (simp add: is_space_def)
  have "str_split (''HTTP '' @ str_nat n) = str_split_acc [] (''HTTP'' @ (CHR '' '' # str_nat n))"
    by (simp add: str_split_def)
  also have "\<dots> = str_split_acc ''HTTP'' (CHR '' '' # str_nat n)"
    using str_split_acc_word [OF h, of "[]"] by simp
  also have "\<dots> = ''HTTP'' # str_split_acc [] (str_nat n @ [])"
    using sp by simp
  also have "str_split_acc [] (str_nat n @ []) = str_split_acc (str_nat n) []"
    using str_split_acc_word [OF str_nat_no_space, of "[]" n "[]"] by simp
  also have "\<dots> = [str_nat n]" by (simp add: str_nat_not_Nil)
  finally show ?thesis .
qed

lemma contains_http_prefix: "contains (''HTTP '' @ s) ''HTTP''"
  by simp

lemma classify_Some:
  "classify (Some m) =
     Inr (if contains m ''HTTP''
          then (if 1 < length (str_split m) then str_split m ! 1 else ''HTTP_ERROR'')
          else if contains (lower m) ''timeout'' then ''TIMEOUT'' else ''ERROR'')"
  by (simp add: classify_def str_opt_def Let_def)

lemma classify_None: "classify None = Inr ''ERROR''"
  by (simp add: classify_def str_opt_def lower_def lower_char_def)

text \<open>
  C5, as stated, fails: for the error message \<open>HTTPError\<close>, which mentions \<open>HTTP\<close> but
  carries no second word, the code assigns a fourth kind, \<open>HTTP_ERROR\<close>, where the three
  kinds of the claim give \<open>ERROR\<close>.
\<close>

theorem classify_three_kinds_counterexample:
  "classify (Some ''HTTPError'') = Inr ''HTTP_ERROR''
   \<and> spec_error_kind ''HTTPError'' = ''ERROR''
   \<and> classify (Some ''HTTPError'') \<noteq> Inr (spec_error_kind ''HTTPError'')"
  by (simp add: classify_Some spec_error_kind_def status_token_def str_split_def is_space_def
        lower_def lower_char_def)

text \<open>
  C5, amended. The error kind assigned from the last error is: for a message that mentions
  \<open>HTTP\<close>, its second whitespace-separated word when it has one (the status code for the
  message \<open>HTTP <status>\<close> of a response that is not 200), and \<open>HTTP_ERROR\<close> when it has
  none; else \<open>TIMEOUT\<close> when the message in lower case mentions \<open>timeout\<close> (as
  \<open>Request timeout\<close> does); else \<open>ERROR\<close>, which is also the kind when no attempt was made.
  The classification never raises.
\<close>

theorem classify_kinds:
  "classify (Some (''HTTP '' @ str_nat status)) = Inr (str_nat status)
   \<and> classify (Some ''Request timeout'') = Inr ''TIMEOUT''
   \<and> classify None = Inr ''ERROR''
   \<and> (contains m ''HTTP'' \<and> 1 < length (str_split m) \<longrightarrow> classify (Some m) = Inr (str_split m ! 1))
   \<and> (contains m ''HTTP'' \<and> length (str_split m) \<le> 1 \<longrightarrow> classify (Some m) = Inr ''HTTP_ERROR'')
   \<and> (\<not> contains m ''HTTP'' \<and> contains (lower m) ''timeout'' \<longrightarrow> classify (Some m) = Inr ''TIMEOUT'')
   \<and> (\<not> contains m ''HTTP'' \<and> \<not> contains (lower m) ''timeout'' \<longrightarrow> classify (Some m) = Inr ''ERROR'')"
proof -
  have a: "classify (Some (''HTTP '' @ str_nat status)) = Inr (str_nat status)"
    unfolding classify_Some str_split_http_status using contains_http_prefix by simp
  have b: "classify (Some ''Request timeout'') = Inr ''TIMEOUT''"
    by (simp add: classify_Some lower_def lower_char_def)
  show ?thesis
    using a b classify_None by (simp add: classify_Some)
qed

theorem classify_kinds_witness:
  "classify (Some ''HTTP 404'') = Inr ''404''
   \<and> classify (Some ''Cannot reach HTTP proxy'') = Inr ''reach''
   \<and> classify (Some ''HTTPError'') = Inr ''HTTP_ERROR''
   \<and> classify (Some ''Connection Timeout'') = Inr ''TIMEOUT''
   \<and> classify (Some ''Server disconnected'') = Inr ''ERROR''"
proof -
  have s: "str_nat 404 = ''404''" by code_simp
  have sp: "str_split ''Cannot reach HTTP proxy'' = [''Cannot'', ''reach'', ''HTTP'', ''proxy'']"
    "str_split ''HTTPError'' = [''HTTPError'']"
    by (simp_all add: str_split_def is_space_def)
  have c: "contains ''Cannot reach HTTP proxy'' ''HTTP''" "contains ''HTTPError'' ''HTTP''"
    "\<not> contains ''Connection Timeout'' ''HTTP''" "\<not> contains ''Server disconnected'' ''HTTP''"
    by simp_all
  have l: "contains (lower ''Connection Timeout'') ''timeout''"
    "\<not> contains (lower ''Server disconnected'') ''timeout''"
    by code_simp+
  show ?thesis
    using classify_kinds [of 404 "''Cannot reach HTTP proxy''"]
      classify_kinds [of 404 "''HTTPError''"]
      classify_kinds [of 404 "''Connection Timeout''"]
      classify_kinds [of 404 "''Server disconnected''"]
    unfolding s sp using c l by simp
qed
section \<open>The fetch worker never raises\<close>

lemma str_split_acc_words_not_Nil: "\<forall>t \<in> set (str_split_acc cur s). t \<noteq> []"
  by (induction s arbitrary: cur) auto

lemma str_split_words_not_Nil: "i < length (str_split m) \<Longrightarrow> str_split m ! i \<noteq> []"
  using str_split_acc_words_not_Nil [of "[]" m] by (simp add: str_split_def)

lemma classify_total: "\<exists>code. classify last_error = Inr code \<and> code \<noteq> []"
proof (cases last_error)
  case None
  then show ?thesis by (simp add: classify_None)
next
  case (Some m)
  then show ?thesis
    using str_split_words_not_Nil [of 1 m] by (simp add: classify_Some)
qed

lemma attempt_loop_cases:
  "(\<exists>p le' log'. attempt_loop mr e pid as le st log =
       (Some p, le', add_success (if has_missing_fields p then add_missing_fields st else st), log'))
   \<or> (\<exists>le' log'. attempt_loop mr e pid as le st log = (None, le', st, log'))"
proof (induction as arbitrary: le log)
  case Nil
  show ?case by simp
next
  case (Cons a as)
  show ?case
  proof (cases "respond e pid a")
    case (Http status b)
    show ?thesis
    proof (cases "status = 200")
      case True
      show ?thesis
      proof (cases b)
        case (Payload data)
        with Http True show ?thesis by (simp add: Let_def)
      next
        case (Unreadable m)
        with Http True Cons.IH show ?thesis by (simp add: Let_def)
      qed
    next
      case False
      with Http Cons.IH show ?thesis by (simp add: Let_def)
    qed
  next
    case TimeoutError
    with Cons.IH show ?thesis by (simp add: Let_def)
  next
    case (Raised m)
    with Cons.IH show ?thesis by (simp add: Let_def)
  qed
qed

lemma add_failure_fields:
  assumes "code \<noteq> []" and "pid \<noteq> []"
  shows "completed (add_failure code pid msg now st) = completed st"
    and "failed (add_failure code pid msg now st) = failed st + 1"
    and "error_codes (add_failure code pid msg now st) = (error_codes st)(code := error_codes st code + 1)"
    and "products_with_missing_fields (add_failure code pid msg now st) = products_with_missing_fields st"
    and "total_products (add_failure code pid msg now st) = total_products st"
    and "failed_products (add_failure code pid msg now st) =
           failed_products st @ [\<lparr> product_id = pid, error_code = code,
              error_message = (case msg of None \<Rightarrow> [] | Some m \<Rightarrow> m), timestamp = now \<rparr>]"
  using assms by (simp_all add: add_failure_def Let_def)

lemma add_success_fields:
  "completed (add_success (if b then add_missing_fields st else st)) = completed st + 1"
  "failed (add_success (if b then add_missing_fields st else st)) = failed st"
  "error_codes (add_success (if b then add_missing_fields st else st)) = error_codes st"
  "failed_products (add_success (if b then add_missing_fields st else st)) = failed_products st"
  "total_products (add_success (if b then add_missing_fields st else st)) = total_products st"
  "products_with_missing_fields (add_success (if b then add_missing_fields st else st)) =
     products_with_missing_fields st + (if b then 1 else 0)"
  by (simp_all add: add_success_def add_missing_fields_def)

lemma fetch_product_cases:
  "(\<exists>p log'. fetch_product mr e pid st log =
       Inr (Some p, add_success (if has_missing_fields p then add_missing_fields st else st), log'))
   \<or> (\<exists>code msg log'. code \<noteq> [] \<and> fetch_product mr e pid st log =
       Inr (None, add_failure code pid msg (clock e pid) st, log'))"
proof -
  from attempt_loop_cases [of mr e pid "[0..<nat mr]" None st log]
  show ?thesis
  proof
    assume "\<exists>p le' log'. attempt_loop mr e pid [0..<nat mr] None st log =
       (Some p, le', add_success (if has_missing_fields p then add_missing_fields st else st), log')"
    then show ?thesis by (auto simp: fetch_product_def)
  next
    assume "\<exists>le' log'. attempt_loop mr e pid [0..<nat mr] None st log = (None, le', st, log')"
    then obtain le' log' where l: "attempt_loop mr e pid [0..<nat mr] None st log = (None, le', st, log')"
      by blast
    from classify_total [of le'] obtain code where c: "classify le' = Inr code" "code \<noteq> []"
      by blast
    have "fetch_product mr e pid st log = Inr (None, add_failure code pid le' (clock e pid) st, log')"
      by (simp add: fetch_product_def l c)
    with c(2) show ?thesis by blast
  qed
qed

text \<open>
  C9, as stated, fails for the empty identifier: \<open>add_failure\<close> appends a record only
  \<open>if product_id\<close>, so the failure is counted and tallied but no FailureRecord is stored.
\<close>

theorem fetch_product_empty_id_counterexample:
  "fetch_product 1 \<lparr> respond = (\<lambda>pid a. Http 500 (Unreadable [])), clock = (\<lambda>pid. ''t'') \<rparr> [] init_stats []
     = Inr (None, add_failure ''500'' [] (Some ''HTTP 500'') ''t'' init_stats, [Request [] 0])
   \<and> failed (add_failure ''500'' [] (Some ''HTTP 500'') ''t'' init_stats) = 1
   \<and> failed_products (add_failure ''500'' [] (Some ''HTTP 500'') ''t'' init_stats) = []"
proof -
  have "fetch_product 1 \<lparr> respond = (\<lambda>pid a. Http 500 (Unreadable [])), clock = (\<lambda>pid. ''t'') \<rparr> [] init_stats []
     = Inr (None, add_failure ''500'' [] (Some ''HTTP 500'') ''t'' init_stats, [Request [] 0])"
    by (simp add: fetch_product_def str_nat_500 classify_500)
  then show ?thesis by (simp add: add_failure_def init_stats_def Let_def)
qed

text \<open>
  C9, amended. For every non-empty identifier and every pattern of per-attempt outcomes,
  one \<open>fetch_product\<close> invocation raises nothing: it either returns a record, the
  completed count incremented by one and the failure data untouched, or returns no record
  after reporting the failure (failed count and the tally of a non-empty error code
  incremented by one, one FailureRecord for the identifier with the current timestamp
  appended, completed count untouched).
\<close>

theorem fetch_product_never_raises:
  assumes "pid \<noteq> []"
  shows "(\<exists>p st' log'. fetch_product mr e pid st log = Inr (Some p, st', log')
            \<and> completed st' = completed st + 1 \<and> failed st' = failed st
            \<and> error_codes st' = error_codes st \<and> failed_products st' = failed_products st)
       \<or> (\<exists>code msg st' log'. fetch_product mr e pid st log = Inr (None, st', log')
            \<and> code \<noteq> [] \<and> completed st' = completed st \<and> failed st' = failed st + 1
            \<and> error_codes st' = (error_codes st)(code := error_codes st code + 1)
            \<and> failed_products st' = failed_products st @
                 [\<lparr> product_id = pid, error_code = code, error_message = msg,
                    timestamp = clock e pid \<rparr>])"
  using fetch_product_cases [of mr e pid st log]
proof
  assume "\<exists>p log'. fetch_product mr e pid st log =
       Inr (Some p, add_success (if has_missing_fields p then add_missing_fields st else st), log')"
  then show ?thesis using add_success_fields by fastforce
next
  assume "\<exists>code msg log'. code \<noteq> [] \<and> fetch_product mr e pid st log =
       Inr (None, add_failure code pid msg (clock e pid) st, log')"
  then obtain code msg log' where c: "code \<noteq> []"
    and f: "fetch_product mr e pid st log = Inr (None, add_failure code pid msg (clock e pid) st, log')"
    by blast
  show ?thesis
    apply (rule disjI2)
    apply (rule exI [of _ code])
    apply (rule exI [of _ "case msg of None \<Rightarrow> [] | Some m \<Rightarrow> m"])
    apply (rule exI [of _ "add_failure code pid msg (clock e pid) st"])
    apply (rule exI [of _ log'])
    using f c assms by (simp add: add_failure_fields)
qed

theorem fetch_product_never_raises_witness:
  "\<exists>st' log'. fetch_product 2 \<lparr> respond = (\<lambda>pid a. if a = 0 then TimeoutError else Raised ''boom''),
        clock = (\<lambda>pid. ''2024-01-01T00:00:00'') \<rparr> ''42'' init_stats [] = Inr (None, st', log')
     \<and> failed st' = 1 \<and> completed st' = 0 \<and> error_codes st' ''ERROR'' = 1
     \<and> failed_products st' = [\<lparr> product_id = ''42'', error_code = ''ERROR'', error_message = ''boom'',
          timestamp = ''2024-01-01T00:00:00'' \<rparr>]"
proof -
  let ?e = "\<lparr> respond = (\<lambda>pid a. if a = 0 then TimeoutError else Raised ''boom''),
        clock = (\<lambda>pid. ''2024-01-01T00:00:00'') \<rparr>"
  have ne: "''42'' \<noteq> []" by simp
  have c: "classify (Some ''boom'') = Inr ''ERROR''" by code_simp
  have run: "fetch_product 2 ?e ''42'' init_stats [] =
      Inr (None, add_failure ''ERROR'' ''42'' (Some ''boom'') ''2024-01-01T00:00:00'' init_stats,
           [Request ''42'' 0, Sleep 1, Request ''42'' 1])"
    by (simp add: fetch_product_def c upt_rec [of 0] upt_rec [of 1] numeral_2_eq_2 Let_def)
  from fetch_product_never_raises [OF ne, of 2 ?e init_stats "[]"] run
  show ?thesis
    by (simp add: add_failure_def init_stats_def Let_def)
qed
section \<open>Incomplete records\<close>

lemma has_missing_fields_iff:
  "has_missing_fields p \<longleftrightarrow>
     \<not> truthy (p_id p) \<or> \<not> truthy (p_name p) \<or> \<not> truthy (p_url_key p) \<or> \<not> truthy (p_price p)
     \<or> p_description p = [] \<or> p_images p = []"
  by (simp add: has_missing_fields_def)

lemma spec_incomplete_flagged: "spec_incomplete p \<Longrightarrow> has_missing_fields p"
  by (auto simp: has_missing_fields_iff spec_incomplete_def spec_empty_or_absent_def)

lemma fetch_product_first_ok:
  assumes "0 < mr" and "respond e pid 0 = Http 200 (Payload data)"
  shows "fetch_product mr e pid st log =
           Inr (Some (make_product data),
                add_success (if has_missing_fields (make_product data) then add_missing_fields st else st),
                log @ [Request pid 0])"
proof -
  from assms(1) have "[0..<nat mr] = 0 # [1..<nat mr]"
    by (simp add: upt_rec [of 0])
  then show ?thesis using assms(2) by (simp add: fetch_product_def Let_def)
qed

text \<open>
  C8, at the failing input: a response that has every field, with price 0. Nothing in the
  record is empty or absent, yet \<open>has_missing_fields\<close> holds of it (\<open>not 0\<close> is true) and
  the worker counts it as a record with missing fields; the record itself is returned.
\<close>

theorem price_zero_counted_incomplete:
  "fetch_product 5
      \<lparr> respond = (\<lambda>pid a. Http 200 (Payload
           \<lparr> d_id = JInt 1, d_name = JStr ''Gift'', d_url_key = JStr ''gift'', d_price = JInt 0,
             d_description = Some ''Free'', d_images = [[(''base_url'', JStr ''u.jpg'')]] \<rparr>)),
        clock = (\<lambda>pid. ''t'') \<rparr>
      ''1'' init_stats []
    = Inr (Some \<lparr> p_id = JInt 1, p_name = JStr ''Gift'', p_url_key = JStr ''gift'', p_price = JInt 0,
                  p_description = ''Free'', p_images = [JStr ''u.jpg''] \<rparr>,
           init_stats \<lparr> completed := 1, products_with_missing_fields := 1 \<rparr>,
           [Request ''1'' 0])
   \<and> has_missing_fields \<lparr> p_id = JInt 1, p_name = JStr ''Gift'', p_url_key = JStr ''gift'',
         p_price = JInt 0, p_description = ''Free'', p_images = [JStr ''u.jpg''] \<rparr>
   \<and> \<not> spec_incomplete \<lparr> p_id = JInt 1, p_name = JStr ''Gift'', p_url_key = JStr ''gift'',
         p_price = JInt 0, p_description = ''Free'', p_images = [JStr ''u.jpg''] \<rparr>"
proof -
  let ?data = "\<lparr> d_id = JInt 1, d_name = JStr ''Gift'', d_url_key = JStr ''gift'', d_price = JInt 0,
             d_description = Some ''Free'', d_images = [[(''base_url'', JStr ''u.jpg'')]] \<rparr>"
  let ?p = "\<lparr> p_id = JInt 1, p_name = JStr ''Gift'', p_url_key = JStr ''gift'', p_price = JInt 0,
                  p_description = ''Free'', p_images = [JStr ''u.jpg''] \<rparr>"
  have cd: "clean_description (Some ''Free'') = ''Free''"
    by (simp add: clean_description_def strip_def is_space_def)
  have mp: "make_product ?data = ?p"
    by (simp add: make_product_def cd dict_get_def)
  have hm: "has_missing_fields ?p" by (simp add: has_missing_fields_def)
  have ns: "\<not> spec_incomplete ?p" by (simp add: spec_incomplete_def spec_empty_or_absent_def)
  have "fetch_product 5 \<lparr> respond = (\<lambda>pid a. Http 200 (Payload ?data)), clock = (\<lambda>pid. ''t'') \<rparr>
          ''1'' init_stats []
        = Inr (Some ?p, add_success (add_missing_fields init_stats), [] @ [Request ''1'' 0])"
    using fetch_product_first_ok [of 5 "\<lparr> respond = (\<lambda>pid a. Http 200 (Payload ?data)), clock = (\<lambda>pid. ''t'') \<rparr>" "''1''" ?data init_stats "[]"]
    unfolding mp using hm by simp
  moreover have "add_success (add_missing_fields init_stats)
      = init_stats \<lparr> completed := 1, products_with_missing_fields := 1 \<rparr>"
    by (simp add: add_success_def add_missing_fields_def init_stats_def)
  ultimately show ?thesis using hm ns by simp
qed
section \<open>What workers, windows and batches do\<close>

subsection \<open>One worker\<close>

lemma attempt_loop_same_result:
  "fst (attempt_loop mr e pid as le st log) = fst (attempt_loop mr e pid as le st' log')
   \<and> fst (snd (attempt_loop mr e pid as le st log)) = fst (snd (attempt_loop mr e pid as le st' log'))"
proof (induction as arbitrary: le log log')
  case Nil
  show ?case by simp
next
  case (Cons a as)
  show ?case
  proof (cases "respond e pid a")
    case (Http status b)
    show ?thesis
    proof (cases "status = 200")
      case True
      show ?thesis
      proof (cases b)
        case (Payload data)
        with Http True show ?thesis by (simp add: Let_def)
      next
        case (Unreadable m)
        with Http True Cons.IH show ?thesis by (simp add: Let_def)
      qed
    next
      case False
      with Http Cons.IH show ?thesis by (simp add: Let_def)
    qed
  next
    case TimeoutError
    with Cons.IH show ?thesis by (simp add: Let_def)
  next
    case (Raised m)
    with Cons.IH show ?thesis by (simp add: Let_def)
  qed
qed

lemma fetch_product_effect:
  "\<exists>st' log'. fetch_product mr e pid st log = Inr (worker_result mr e pid, st', log')
     \<and> failed_products st' = failed_products st @ failure_list (worker_failure mr e pid)"
proof -
  let ?as = "[0..<nat mr]"
  obtain r l st2 log2 where run: "attempt_loop mr e pid ?as None st log = (r, l, st2, log2)"
    by (cases "attempt_loop mr e pid ?as None st log") auto
  obtain r0 l0 st0 log0 where run0: "attempt_loop mr e pid ?as None init_stats [] = (r0, l0, st0, log0)"
    by (cases "attempt_loop mr e pid ?as None init_stats []") auto
  from attempt_loop_same_result [of mr e pid ?as None st log init_stats "[]"] run run0
  have same: "r0 = r" "l0 = l" by simp_all
  have wr: "worker_result mr e pid = r" by (simp add: worker_result_def run0 same)
  show ?thesis
  proof (cases r)
    case (Some p)
    from attempt_loop_cases [of mr e pid ?as None st log] run Some
    have st2: "st2 = add_success (if has_missing_fields p then add_missing_fields st else st)"
      by auto
    have "fetch_product mr e pid st log = Inr (Some p, st2, log2)"
      by (simp add: fetch_product_def run Some)
    moreover have "failed_products st2 = failed_products st"
      unfolding st2 by (rule add_success_fields)
    moreover have "worker_failure mr e pid = None"
      by (simp add: worker_failure_def fetch_product_def run0 same Some)
    ultimately show ?thesis using wr Some by (simp add: failure_list_def)
  next
    case None
    from attempt_loop_cases [of mr e pid ?as None st log] run None
    have st2: "st2 = st" by auto
    from attempt_loop_cases [of mr e pid ?as None init_stats "[]"] run0 same None
    have st0: "st0 = init_stats" by auto
    from classify_total [of l] obtain code where c: "classify l = Inr code" "code \<noteq> []" by blast
    have f: "fetch_product mr e pid st log = Inr (None, add_failure code pid l (clock e pid) st, log2)"
      by (simp add: fetch_product_def run None c st2)
    have f0: "fetch_product mr e pid init_stats [] =
                Inr (None, add_failure code pid l (clock e pid) init_stats, log0)"
      by (simp add: fetch_product_def run0 same None c st0)
    have wf: "worker_failure mr e pid =
        (case failed_products (add_failure code pid l (clock e pid) init_stats) of
           [] \<Rightarrow> None | r # rs \<Rightarrow> Some r)"
      by (simp add: worker_failure_def f0)
    have "failed_products (add_failure code pid l (clock e pid) st) =
            failed_products st @ failure_list (worker_failure mr e pid)"
      unfolding wf using c(2)
      by (simp add: add_failure_def Let_def init_stats_def failure_list_def)
    with f wr None show ?thesis by simp
  qed
qed


subsection \<open>Windows and batches\<close>

lemma map_filter_append: "List.map_filter f (xs @ ys) = List.map_filter f xs @ List.map_filter f ys"
  by (simp add: List.map_filter_def)

lemma map_filter_Cons:
  "List.map_filter f (x # xs) = (case f x of None \<Rightarrow> [] | Some y \<Rightarrow> [y]) @ List.map_filter f xs"
  by (simp add: List.map_filter_def split: option.splits)

lemma map_filter_id_map: "List.map_filter (\<lambda>r. r) (map f xs) = List.map_filter f xs"
  by (induction xs) (simp_all add: List.map_filter_def)

lemma gather_effect:
  "\<exists>st' log'. gather mr e pids st log = Inr (map (worker_result mr e) pids, st', log')
     \<and> failed_products st' = failed_products st @ List.map_filter (worker_failure mr e) pids"
proof (induction pids arbitrary: st log)
  case Nil
  show ?case by (simp add: List.map_filter_def)
next
  case (Cons pid pids)
  from fetch_product_effect [of mr e pid st log] obtain st1 log1 where
    f: "fetch_product mr e pid st log = Inr (worker_result mr e pid, st1, log1)"
    and s1: "failed_products st1 = failed_products st @ failure_list (worker_failure mr e pid)"
    by blast
  from Cons.IH [of st1 log1] obtain st2 log2 where
    g: "gather mr e pids st1 log1 = Inr (map (worker_result mr e) pids, st2, log2)"
    and s2: "failed_products st2 = failed_products st1 @ List.map_filter (worker_failure mr e) pids"
    by blast
  have "gather mr e (pid # pids) st log = Inr (map (worker_result mr e) (pid # pids), st2, log2)"
    by (simp add: f g)
  moreover have "failed_products st2 =
      failed_products st @ List.map_filter (worker_failure mr e) (pid # pids)"
    by (simp add: s1 s2 map_filter_Cons failure_list_def split: option.splits)
  ultimately show ?case by blast
qed

lemma fetch_windows_effect:
  "\<exists>st' log'. fetch_windows cfg e ids starts results st log =
       Inr (results @ successes (max_retries cfg) e
              (concat (map (\<lambda>i. slice ids i (i + nat (concurrent_requests cfg))) starts)), st', log')
     \<and> failed_products st' = failed_products st @
         List.map_filter (worker_failure (max_retries cfg) e)
           (concat (map (\<lambda>i. slice ids i (i + nat (concurrent_requests cfg))) starts))"
proof (induction starts arbitrary: results st log)
  case Nil
  show ?case by (simp add: successes_def List.map_filter_def)
next
  case (Cons i starts)
  let ?chunk = "slice ids i (i + nat (concurrent_requests cfg))"
  from gather_effect [of "max_retries cfg" e ?chunk st log] obtain st1 log1 where
    g: "gather (max_retries cfg) e ?chunk st log = Inr (map (worker_result (max_retries cfg) e) ?chunk, st1, log1)"
    and s1: "failed_products st1 = failed_products st @ List.map_filter (worker_failure (max_retries cfg) e) ?chunk"
    by blast
  let ?res = "results @ List.map_filter (\<lambda>r. r) (map (worker_result (max_retries cfg) e) ?chunk)"
  from Cons.IH [of ?res st1 log1] obtain st2 log2 where
    w: "fetch_windows cfg e ids starts ?res st1 log1 =
       Inr (?res @ successes (max_retries cfg) e
              (concat (map (\<lambda>i. slice ids i (i + nat (concurrent_requests cfg))) starts)), st2, log2)"
    and s2: "failed_products st2 = failed_products st1 @
         List.map_filter (worker_failure (max_retries cfg) e)
           (concat (map (\<lambda>i. slice ids i (i + nat (concurrent_requests cfg))) starts))"
    by blast
  have "fetch_windows cfg e ids (i # starts) results st log =
       Inr (results @ successes (max_retries cfg) e
              (concat (map (\<lambda>i. slice ids i (i + nat (concurrent_requests cfg))) (i # starts))), st2, log2)"
    using w by (simp add: Let_def g map_filter_id_map successes_def map_filter_append)
  moreover have "failed_products st2 = failed_products st @
         List.map_filter (worker_failure (max_retries cfg) e)
           (concat (map (\<lambda>i. slice ids i (i + nat (concurrent_requests cfg))) (i # starts)))"
    by (simp add: s1 s2 map_filter_append)
  ultimately show ?case by blast
qed

lemma concat_slices_take:
  "concat (map (\<lambda>k. slice xs (k * c) (k * c + c)) [0..<m]) = take (m * c) xs"
proof (induction m)
  case 0
  show ?case by simp
next
  case (Suc m)
  have "Suc m * c = m * c + c" by simp
  then have "take (Suc m * c) xs = take (m * c) xs @ take c (drop (m * c) xs)"
    by (simp only: take_add)
  with Suc show ?case by (simp add: slice_def del: mult_Suc)
qed

lemma ceil_div_covers: "0 < c \<Longrightarrow> n \<le> ((n + c - 1) div c) * (c::nat)"
proof -
  assume c: "0 < c"
  have "n + c - 1 = ((n + c - 1) div c) * c + (n + c - 1) mod c" by simp
  moreover have "(n + c - 1) mod c < c" using c by simp
  ultimately show ?thesis by linarith
qed

lemma concat_slices_all:
  "0 < c \<Longrightarrow> concat (map (\<lambda>k. slice xs (k * c) (k * c + c)) [0..<(length xs + c - 1) div c]) = xs"
  using ceil_div_covers [of c "length xs"] by (simp add: concat_slices_take)

lemma range_step_pos:
  "0 < c \<Longrightarrow> range_step n (int c) = Inr (map (\<lambda>k. k * c) [0..<(n + c - 1) div c])"
  by (simp add: range_step_def)

lemma fetch_batch_effect:
  assumes "concurrent_requests cfg \<noteq> 0"
  shows "\<exists>st' log'. fetch_batch cfg e ids st log =
            Inr (successes (max_retries cfg) e (fetched cfg ids), st', log')
          \<and> failed_products st' = failed_products st @
              List.map_filter (worker_failure (max_retries cfg) e) (fetched cfg ids)"
proof (cases "0 < concurrent_requests cfg")
  case True
  define c where "c = nat (concurrent_requests cfg)"
  have c: "0 < c" "concurrent_requests cfg = int c" using True by (simp_all add: c_def)
  let ?starts = "map (\<lambda>k. k * c) [0..<(length ids + c - 1) div c]"
  have cc: "concat (map (\<lambda>i. slice ids i (i + nat (concurrent_requests cfg))) ?starts) = ids"
    using concat_slices_all [OF c(1), of ids] by (simp add: c(2) comp_def)
  have fb: "fetch_batch cfg e ids st log = fetch_windows cfg e ids ?starts [] st log"
    using range_step_pos [OF c(1), of "length ids"] by (simp add: fetch_batch_def c(2))
  from fetch_windows_effect [of cfg e ids ?starts "[]" st log] show ?thesis
    unfolding fb cc using True by (simp add: fetched_def)
next
  case False
  with assms have "concurrent_requests cfg < 0" by simp
  then show ?thesis
    by (simp add: fetch_batch_def range_step_def fetched_def successes_def List.map_filter_def)
qed

lemma fetch_batch_zero:
  "concurrent_requests cfg = 0 \<Longrightarrow> fetch_batch cfg e ids st log = Inl (ValueError, st, log)"
  by (simp add: fetch_batch_def range_step_def)
subsection \<open>Batch file names\<close>

lemma digit_char_inj: "d < 10 \<Longrightarrow> d' < 10 \<Longrightarrow> digit_char d = digit_char d' \<Longrightarrow> d = d'"
proof -
  assume a: "d < 10" "d' < 10" "digit_char d = digit_char d'"
  from a(1) have "(48 + d) mod 256 = 48 + d" by simp
  then have x: "(of_char (digit_char d) :: nat) = 48 + d" by (simp add: digit_char_def)
  from a(2) have "(48 + d') mod 256 = 48 + d'" by simp
  then have y: "(of_char (digit_char d') :: nat) = 48 + d'" by (simp add: digit_char_def)
  from a(3) have "(of_char (digit_char d) :: nat) = of_char (digit_char d')" by (rule arg_cong)
  then have "48 + d = 48 + d'" by (simp only: x y)
  then show ?thesis by (simp only: add_left_cancel)
qed

lemma str_nat_length_one: "length (str_nat n) = 1 \<longleftrightarrow> n < 10"
proof (cases "n < 10")
  case True
  then show ?thesis by (simp add: str_nat.simps [of n])
next
  case False
  have "str_nat (n div 10) \<noteq> []" by (rule str_nat_not_Nil)
  then have "0 < length (str_nat (n div 10))" by simp
  with False show ?thesis by (simp add: str_nat.simps [of n])
qed

lemma str_nat_inj: "str_nat n = str_nat m \<Longrightarrow> n = m"
proof (induction n arbitrary: m rule: str_nat.induct)
  case (1 n)
  show ?case
  proof (cases "n < 10")
    case True
    with "1.prems" have "length (str_nat m) = 1" using str_nat_length_one [of n] by simp
    then have m: "m < 10" using str_nat_length_one [of m] by simp
    from "1.prems" True m have "digit_char n = digit_char m"
      by (simp add: str_nat.simps [of n] str_nat.simps [of m])
    with True m show ?thesis by (rule digit_char_inj)
  next
    case False
    with "1.prems" have "length (str_nat m) \<noteq> 1" using str_nat_length_one [of n] by simp
    then have m: "\<not> m < 10" using str_nat_length_one [of m] by simp
    from "1.prems" False m have
      "str_nat (n div 10) @ [digit_char (n mod 10)] = str_nat (m div 10) @ [digit_char (m mod 10)]"
      by (simp add: str_nat.simps [of n] str_nat.simps [of m])
    then have a: "str_nat (n div 10) = str_nat (m div 10)"
      and b: "digit_char (n mod 10) = digit_char (m mod 10)" by simp_all
    from "1.IH" [OF False a] have "n div 10 = m div 10" .
    moreover have "n mod 10 = m mod 10"
      by (rule digit_char_inj [OF _ _ b]) simp_all
    ultimately show ?thesis by (metis div_mult_mod_eq)
  qed
qed

lemma update_absent: "k \<notin> set (map fst al) \<Longrightarrow> AList.update k v al = al @ [(k, v)]"
  by (induction al) auto

subsection \<open>The batch loop\<close>


lemma batch_loop_step:
  assumes "0 < b" and "batch_size cfg = int b"
  shows "batch_loop cfg e (k * b # starts) w =
           (if exists_file (batch_units (fs w)) (str_nat (k + 1))
            then batch_loop cfg e starts w
            else (case fetch_batch cfg e (batch b (product_ids w) k) (stats w) (events w) of
                    Inl (err, st1, log1) \<Rightarrow> Inl (err, w\<lparr> stats := st1, events := log1 \<rparr>)
                  | Inr (products, st1, log1) \<Rightarrow>
                      batch_loop cfg e starts
                        (w\<lparr> stats := st1, fs := save_batch products k (fs w),
                           events := log1 @ [Sleep 2] \<rparr>)))"
proof -
  have "k * b div nat (batch_size cfg) = k" using assms by simp
  moreover have "nat (batch_size cfg) = b" using assms(2) by simp
  ultimately show ?thesis
    by (simp only: batch_loop.simps Let_def batch_def)
qed

lemma batch_loop_effect:
  assumes "0 < b" and "batch_size cfg = int b" and "concurrent_requests cfg \<noteq> 0"
    and "distinct ks"
  shows "\<exists>w'. batch_loop cfg e (map (\<lambda>k. k * b) ks) w = Inr w'
           \<and> product_ids w' = product_ids w
           \<and> partitions (fs w') = partitions (fs w)
           \<and> all_failed (fs w') = all_failed (fs w)
           \<and> batch_units (fs w') = batch_units (fs w) @
                map (\<lambda>k. (str_nat (k + 1),
                           Some (successes (max_retries cfg) e (fetched cfg (batch b (product_ids w) k)))))
                    (filter (absent (fs w)) ks)
           \<and> failed_products (stats w') = failed_products (stats w) @
                List.map_filter (worker_failure (max_retries cfg) e)
                  (concat (map (\<lambda>k. fetched cfg (batch b (product_ids w) k)) (filter (absent (fs w)) ks)))"
  using assms(4)
proof (induction ks arbitrary: w)
  case Nil
  show ?case by (simp add: List.map_filter_def)
next
  case (Cons k ks)
  from Cons.prems have dks: "distinct ks" and kn: "k \<notin> set ks" by simp_all
  show ?case
  proof (cases "absent (fs w) k")
    case False
    then have ex: "exists_file (batch_units (fs w)) (str_nat (Suc k))" by (simp add: absent_def)
    from Cons.IH [OF dks, of w] ex False show ?thesis
      by (simp add: batch_loop_step [OF assms(1,2)] del: batch_loop.simps)
  next
    case True
    then have nex: "\<not> exists_file (batch_units (fs w)) (str_nat (Suc k))" by (simp add: absent_def)
    let ?ids = "batch b (product_ids w) k"
    from fetch_batch_effect [OF assms(3), of e ?ids "stats w" "events w"] obtain st1 log1 where
      fb: "fetch_batch cfg e ?ids (stats w) (events w) =
             Inr (successes (max_retries cfg) e (fetched cfg ?ids), st1, log1)"
      and fp: "failed_products st1 = failed_products (stats w) @
                 List.map_filter (worker_failure (max_retries cfg) e) (fetched cfg ?ids)"
      by blast
    let ?products = "successes (max_retries cfg) e (fetched cfg ?ids)"
    let ?w1 = "w\<lparr> stats := st1, fs := save_batch ?products k (fs w), events := log1 @ [Sleep 2] \<rparr>"
    have step: "batch_loop cfg e (map (\<lambda>k. k * b) (k # ks)) w = batch_loop cfg e (map (\<lambda>k. k * b) ks) ?w1"
      using nex fb by (simp add: batch_loop_step [OF assms(1,2)] del: batch_loop.simps)
    have bu1: "batch_units (fs ?w1) = batch_units (fs w) @ [(str_nat (k + 1), Some ?products)]"
      using nex by (simp add: save_batch_def exists_file_def update_absent)
    have abs1: "filter (absent (fs ?w1)) ks = filter (absent (fs w)) ks"
    proof (rule filter_cong [OF refl])
      fix j assume "j \<in> set ks"
      with kn have "j \<noteq> k" by auto
      then have "str_nat (j + 1) \<noteq> str_nat (k + 1)" using str_nat_inj [of "j + 1" "k + 1"] by auto
      then show "absent (fs ?w1) j = absent (fs w) j"
        using bu1 by (simp add: absent_def exists_file_def)
    qed
    from Cons.IH [OF dks, of ?w1] obtain w' where
      l: "batch_loop cfg e (map (\<lambda>k. k * b) ks) ?w1 = Inr w'"
      and p: "product_ids w' = product_ids ?w1" "partitions (fs w') = partitions (fs ?w1)"
        "all_failed (fs w') = all_failed (fs ?w1)"
      and bu: "batch_units (fs w') = batch_units (fs ?w1) @
                map (\<lambda>k. (str_nat (k + 1),
                           Some (successes (max_retries cfg) e (fetched cfg (batch b (product_ids ?w1) k)))))
                    (filter (absent (fs ?w1)) ks)"
      and fps: "failed_products (stats w') = failed_products (stats ?w1) @
                List.map_filter (worker_failure (max_retries cfg) e)
                  (concat (map (\<lambda>k. fetched cfg (batch b (product_ids ?w1) k)) (filter (absent (fs ?w1)) ks)))"
      by blast
    have "batch_loop cfg e (map (\<lambda>k. k * b) (k # ks)) w = Inr w'" using step l by simp
    moreover have "product_ids w' = product_ids w" using p(1) by simp
    moreover have "partitions (fs w') = partitions (fs w)" using p(2) by (simp add: save_batch_def)
    moreover have "all_failed (fs w') = all_failed (fs w)" using p(3) by (simp add: save_batch_def)
    moreover have "batch_units (fs w') = batch_units (fs w) @
                map (\<lambda>k. (str_nat (k + 1),
                           Some (successes (max_retries cfg) e (fetched cfg (batch b (product_ids w) k)))))
                    (filter (absent (fs w)) (k # ks))"
      using bu True unfolding abs1 bu1 by simp
    moreover have "failed_products (stats w') = failed_products (stats w) @
                List.map_filter (worker_failure (max_retries cfg) e)
                  (concat (map (\<lambda>k. fetched cfg (batch b (product_ids w) k)) (filter (absent (fs w)) (k # ks))))"
      using fps True unfolding abs1 by (simp add: fp map_filter_append)
    ultimately show ?thesis by blast
  qed
qed

lemma batch_loop_no_window:
  assumes "concurrent_requests cfg = 0"
  shows "final_state (batch_loop cfg e starts w) = w"
proof (induction starts)
  case Nil
  show ?case by (simp add: final_state_def)
next
  case (Cons s starts)
  then show ?case
    using assms by (simp add: Let_def fetch_batch_zero final_state_def)
qed
subsection \<open>A whole run\<close>

subsection \<open>Before the first batch\<close>

lemma foldl_replay_product: "failed_products (foldl replay_product st ps) = failed_products st"
  by (induction ps arbitrary: st)
     (simp_all add: replay_product_def add_success_def add_missing_fields_def Let_def)

lemma foldl_replay_failure: "failed_products (foldl replay_failure st rs) = failed_products st @ rs"
  by (induction rs arbitrary: st) (simp_all add: replay_failure_def)

lemma load_products_failed:
  "failed_products (foldl (\<lambda>s file. case snd file of None \<Rightarrow> s | Some ps \<Rightarrow> foldl replay_product s ps) st files)
     = failed_products st"
  by (induction files arbitrary: st) (simp_all add: foldl_replay_product split: option.splits)

lemma load_failures_failed:
  "failed_products (foldl (\<lambda>s file. case snd file of None \<Rightarrow> s | Some rs \<Rightarrow> foldl replay_failure s rs) st files)
     = failed_products st @ concat (map (\<lambda>file. case snd file of None \<Rightarrow> [] | Some rs \<Rightarrow> rs) files)"
  by (induction files arbitrary: st) (simp_all add: foldl_replay_failure split: option.splits)

lemma load_existing_results_failed:
  "failed_products (load_existing_results fo st) = failed_products st @ replayed fo"
  by (simp add: load_existing_results_def Let_def load_failures_failed load_products_failed replayed_def)

lemma prepared_fields:
  "product_ids (prepared ids fo) = pending ids fo"
  "fs (prepared ids fo) = fo"
  "failed_products (stats (prepared ids fo)) = replayed fo"
  by (simp_all add: prepared_def filter_uncrawled_products_def deduplicate_input_ids_def
        start_state_def Let_def pending_def load_existing_results_failed init_stats_def)

lemma crawl_unfold:
  "crawl cfg e (start_state ids fo) =
     (if pending ids fo = [] then Inr (prepared ids fo)
      else if batch_size cfg = 0 then Inl (ZeroDivisionError, prepared ids fo)
      else (case range_step (length (pending ids fo)) (batch_size cfg) of
              Inl err \<Rightarrow> Inl (err, prepared ids fo)
            | Inr starts \<Rightarrow>
                (case batch_loop cfg e starts (prepared ids fo) of
                   Inl err \<Rightarrow> Inl err
                 | Inr w4 \<Rightarrow>
                     Inr (w4\<lparr> fs := save_failed_products_by_error
                                      (failed_products (stats w4)) (fs w4) \<rparr>))))"
proof -
  have h: "fs (deduplicate_input_ids (start_state ids fo)) = fo"
    by (simp add: deduplicate_input_ids_def start_state_def Let_def)
  show ?thesis
    unfolding crawl_def Let_def h prepared_def [symmetric] prepared_fields(1) by (rule refl)
qed

lemma processed_Nil:
  "\<not> (0 < batch_size cfg \<and> concurrent_requests cfg \<noteq> 0) \<Longrightarrow> processed cfg fo ids = []"
  unfolding processed_def by (rule if_not_P)

lemma written_Nil: "processed cfg fo ids = [] \<Longrightarrow> written cfg e fo ids = []"
  by (simp add: written_def)

lemma run_failures_Nil: "processed cfg fo ids = [] \<Longrightarrow> run_failures cfg e fo ids = []"
  by (simp add: run_failures_def List.map_filter_def)

lemma processed_empty_list: "processed cfg fo [] = []"
  by (simp add: processed_def)

lemma folder_batch_units_same: "fo\<lparr> batch_units := batch_units fo \<rparr> = fo"
  by simp

lemma crawl_result:
  "(\<exists>w'. crawl cfg e (start_state ids fo) = Inr w'
       \<and> product_ids w' = pending ids fo
       \<and> failed_products (stats w') = replayed fo @ run_failures cfg e fo (pending ids fo)
       \<and> fs w' = (if pending ids fo = [] then fo
                  else save_failed_products_by_error
                         (replayed fo @ run_failures cfg e fo (pending ids fo))
                         (fo\<lparr> batch_units := batch_units fo @ written cfg e fo (pending ids fo) \<rparr>)))
   \<or> (\<exists>err w'. crawl cfg e (start_state ids fo) = Inl (err, w')
       \<and> pending ids fo \<noteq> []
       \<and> product_ids w' = pending ids fo
       \<and> failed_products (stats w') = replayed fo
       \<and> fs w' = fo
       \<and> (batch_size cfg = 0 \<or> concurrent_requests cfg = 0))"
proof (cases "pending ids fo = []")
  case True
  then show ?thesis
    by (simp add: crawl_unfold prepared_fields processed_empty_list run_failures_Nil)
next
  case ne: False
  let ?P = "pending ids fo"
  let ?w3 = "prepared ids fo"
  show ?thesis
  proof (cases "batch_size cfg = 0")
    case True
    with ne show ?thesis by (simp add: crawl_unfold prepared_fields)
  next
    case nz: False
    show ?thesis
    proof (cases "batch_size cfg < 0")
      case True
      then have pr: "processed cfg fo ?P = []" by (simp add: processed_Nil)
      have "range_step (length ?P) (batch_size cfg) = Inr []"
        using True by (simp add: range_step_def)
      then have "crawl cfg e (start_state ids fo) =
          Inr (?w3\<lparr> fs := save_failed_products_by_error (failed_products (stats ?w3)) (fs ?w3) \<rparr>)"
        using ne nz by (simp add: crawl_unfold)
      then show ?thesis
        using ne by (simp add: prepared_fields pr written_Nil run_failures_Nil)
    next
      case False
      with nz have pos: "0 < batch_size cfg" by simp
      define b where "b = nat (batch_size cfg)"
      have b: "0 < b" "batch_size cfg = int b" using pos by (simp_all add: b_def)
      let ?ks = "[0..<(length ?P + b - 1) div b]"
      have rs: "range_step (length ?P) (batch_size cfg) = Inr (map (\<lambda>k. k * b) ?ks)"
        using range_step_pos [OF b(1), of "length ?P"] by (simp add: b(2))
      have cu: "crawl cfg e (start_state ids fo) =
          (case batch_loop cfg e (map (\<lambda>k. k * b) ?ks) ?w3 of
             Inl err \<Rightarrow> Inl err
           | Inr w4 \<Rightarrow> Inr (w4\<lparr> fs := save_failed_products_by_error
                                      (failed_products (stats w4)) (fs w4) \<rparr>))"
        using ne nz rs by (simp add: crawl_unfold)
      show ?thesis
      proof (cases "concurrent_requests cfg = 0")
        case True
        then have pr: "processed cfg fo ?P = []" by (simp add: processed_Nil)
        from batch_loop_no_window [OF True, of e "map (\<lambda>k. k * b) ?ks" ?w3]
        have fin: "final_state (batch_loop cfg e (map (\<lambda>k. k * b) ?ks) ?w3) = ?w3" .
        show ?thesis
        proof (cases "batch_loop cfg e (map (\<lambda>k. k * b) ?ks) ?w3")
          case (Inl x)
          obtain err w where x: "x = (err, w)" by (cases x)
          with Inl fin have "w = ?w3" by (simp add: final_state_def)
          with Inl x cu True ne show ?thesis by (simp add: prepared_fields)
        next
          case (Inr w4)
          with fin have "w4 = ?w3" by (simp add: final_state_def)
          with Inr cu ne show ?thesis
            by (simp add: prepared_fields pr written_Nil run_failures_Nil)
        qed
      next
        case False
        have pr: "processed cfg fo ?P = filter (absent fo) ?ks"
          using pos False by (simp add: processed_def b_def)
        from batch_loop_effect [OF b False, of ?ks e ?w3] obtain w4 where
          l: "batch_loop cfg e (map (\<lambda>k. k * b) ?ks) ?w3 = Inr w4"
          and p: "product_ids w4 = ?P" "partitions (fs w4) = partitions fo"
                 "all_failed (fs w4) = all_failed fo"
          and bu: "batch_units (fs w4) = batch_units fo @ written cfg e fo ?P"
          and fp: "failed_products (stats w4) = replayed fo @ run_failures cfg e fo ?P"
          by (auto simp: prepared_fields written_def run_failures_def pr b_def)
        have "fs w4 = fo\<lparr> batch_units := batch_units fo @ written cfg e fo ?P \<rparr>"
          using p(2,3) bu by simp
        with l cu p(1) fp ne show ?thesis by simp
      qed
    qed
  qed
qed
section \<open>Existing BatchUnits are skipped and kept\<close>

subsection \<open>Files the failure sink leaves alone\<close>

lemma merge_partition_batch_units: "batch_units (merge_partition grp fo) = batch_units fo"
  by (simp add: merge_partition_def Let_def)

lemma foldl_merge_batch_units:
  "batch_units (foldl (\<lambda>f grp. merge_partition grp f) fo groups) = batch_units fo"
  by (induction groups arbitrary: fo) (simp_all add: merge_partition_batch_units)

lemma save_failed_batch_units: "batch_units (save_failed_products_by_error records fo) = batch_units fo"
  by (simp add: save_failed_products_by_error_def foldl_merge_batch_units)

lemma crawl_batch_units:
  "batch_units (fs (final_state (crawl cfg e (start_state ids fo)))) =
     batch_units fo @ written cfg e fo (pending ids fo)"
  using crawl_result [of cfg e ids fo]
proof
  assume "\<exists>w'. crawl cfg e (start_state ids fo) = Inr w'
       \<and> product_ids w' = pending ids fo
       \<and> failed_products (stats w') = replayed fo @ run_failures cfg e fo (pending ids fo)
       \<and> fs w' = (if pending ids fo = [] then fo
                  else save_failed_products_by_error
                         (replayed fo @ run_failures cfg e fo (pending ids fo))
                         (fo\<lparr> batch_units := batch_units fo @ written cfg e fo (pending ids fo) \<rparr>))"
  then show ?thesis
    by (auto simp: final_state_def save_failed_batch_units processed_empty_list written_Nil)
next
  assume "\<exists>err w'. crawl cfg e (start_state ids fo) = Inl (err, w')
       \<and> pending ids fo \<noteq> []
       \<and> product_ids w' = pending ids fo
       \<and> failed_products (stats w') = replayed fo
       \<and> fs w' = fo
       \<and> (batch_size cfg = 0 \<or> concurrent_requests cfg = 0)"
  then obtain err w' where c: "crawl cfg e (start_state ids fo) = Inl (err, w')" "fs w' = fo"
    and z: "batch_size cfg = 0 \<or> concurrent_requests cfg = 0" by blast
  from z have "processed cfg fo (pending ids fo) = []" by (auto simp: processed_def)
  with c show ?thesis by (simp add: final_state_def written_Nil)
qed

lemma map_of_append_left: "k \<in> set (map fst xs) \<Longrightarrow> map_of (xs @ ys) k = map_of xs k"
  by (induction xs) auto

text \<open>
  C3. When the file \<open>products_<index+1>.json\<close> of a batch exists as the loop reaches the
  batch, the loop goes on to the next batch with the state as it is, so nothing is
  fetched and nothing is written for it. Over a whole run, whether it returns or raises,
  the BatchUnit files found at the start keep their place and content: the run only adds
  files after them.
\<close>

theorem existing_batch_unit_skipped:
  "(exists_file (batch_units (fs w)) (str_nat (start div nat (batch_size cfg) + 1))
      \<longrightarrow> batch_loop cfg e (start # starts) w = batch_loop cfg e starts w)
   \<and> (\<exists>new. batch_units (fs (final_state (crawl cfg e (start_state ids fo)))) = batch_units fo @ new)
   \<and> (\<forall>k. exists_file (batch_units fo) k
          \<longrightarrow> map_of (batch_units (fs (final_state (crawl cfg e (start_state ids fo))))) k
                = map_of (batch_units fo) k)"
proof -
  have a: "exists_file (batch_units (fs w)) (str_nat (start div nat (batch_size cfg) + 1))
      \<longrightarrow> batch_loop cfg e (start # starts) w = batch_loop cfg e starts w"
    by (simp add: Let_def)
  have b: "\<exists>new. batch_units (fs (final_state (crawl cfg e (start_state ids fo)))) = batch_units fo @ new"
    using crawl_batch_units by blast
  have c: "\<forall>k. exists_file (batch_units fo) k
          \<longrightarrow> map_of (batch_units (fs (final_state (crawl cfg e (start_state ids fo))))) k
                = map_of (batch_units fo) k"
    unfolding crawl_batch_units exists_file_def using map_of_append_left by fast
  from a b c show ?thesis by blast
qed

theorem existing_batch_unit_skipped_witness:
  "exists_file [(''2'', Some [])] (str_nat (1 div nat 1 + 1))
   \<and> batch_loop \<lparr> batch_size = 1, concurrent_requests = 1, max_retries = 1 \<rparr>
        \<lparr> respond = (\<lambda>pid a. TimeoutError), clock = (\<lambda>pid. ''t'') \<rparr> (1 # [2])
        (start_state [''A'', ''B'', ''C''] \<lparr> batch_units = [(''2'', Some [])], partitions = [], all_failed = None \<rparr>)
     = batch_loop \<lparr> batch_size = 1, concurrent_requests = 1, max_retries = 1 \<rparr>
        \<lparr> respond = (\<lambda>pid a. TimeoutError), clock = (\<lambda>pid. ''t'') \<rparr> [2]
        (start_state [''A'', ''B'', ''C''] \<lparr> batch_units = [(''2'', Some [])], partitions = [], all_failed = None \<rparr>)
   \<and> map_of (batch_units (fs (final_state (crawl \<lparr> batch_size = 1, concurrent_requests = 1, max_retries = 1 \<rparr>
        \<lparr> respond = (\<lambda>pid a. TimeoutError), clock = (\<lambda>pid. ''t'') \<rparr>
        (start_state [''A'', ''B'', ''C''] \<lparr> batch_units = [(''2'', Some [])], partitions = [], all_failed = None \<rparr>))))) ''2''
     = Some (Some [])"
proof -
  let ?cfg = "\<lparr> batch_size = 1, concurrent_requests = 1, max_retries = 1 \<rparr>"
  let ?e = "\<lparr> respond = (\<lambda>pid a. TimeoutError), clock = (\<lambda>pid. ''t'') \<rparr>"
  let ?fo = "\<lparr> batch_units = [(''2'', Some []) :: string \<times> product list option], partitions = [], all_failed = None \<rparr>"
  let ?w = "start_state [''A'', ''B'', ''C''] ?fo"
  have s: "str_nat 2 = ''2''" by code_simp
  have s': "str_nat (1 div nat (batch_size ?cfg) + 1) = ''2''" by code_simp
  have ex: "exists_file (batch_units (fs ?w)) (str_nat (1 div nat (batch_size ?cfg) + 1))"
    unfolding s' by (simp add: exists_file_def start_state_def)
  have ex2: "exists_file (batch_units ?fo) ''2''" by (simp add: exists_file_def)
  have ex3: "exists_file [(''2'', Some [])] (str_nat (1 div nat 1 + 1))"
    using s' by (simp add: exists_file_def)
  from existing_batch_unit_skipped [of ?w 1 ?cfg ?e "[2]" "[''A'', ''B'', ''C'']" ?fo] ex ex2 ex3
  show ?thesis by simp
qed
section \<open>A resumed run\<close>

lemma batch_loop_all_present:
  "\<forall>s \<in> set starts. exists_file (batch_units (fs w)) (str_nat (s div nat (batch_size cfg) + 1))
   \<Longrightarrow> batch_loop cfg e starts w = Inr w"
  by (induction starts) (simp_all add: Let_def)

text \<open>
  C2, at the failing input: the folder holds \<open>products_1.json\<close> with the records of 101
  and 102, and the input is 101, 102, 103. The work list is filtered down to 103, but its
  batch has index 0 again, so the file \<open>products_1.json\<close> makes the loop skip it: whatever
  the remote service would answer, nothing is requested and the folder stays as it was.
\<close>

theorem resumed_run_fetches_nothing:
  "\<exists>w'. crawl \<lparr> batch_size = 1000, concurrent_requests = 50, max_retries = 5 \<rparr> e
          (start_state [''101'', ''102'', ''103'']
             \<lparr> batch_units = [(''1'', Some
                  [\<lparr> p_id = JInt 101, p_name = JStr ''a'', p_url_key = JStr ''a'', p_price = JInt 5,
                      p_description = ''a'', p_images = [JStr ''u''] \<rparr>,
                   \<lparr> p_id = JInt 102, p_name = JStr ''b'', p_url_key = JStr ''b'', p_price = JInt 7,
                      p_description = ''b'', p_images = [JStr ''v''] \<rparr>])],
               partitions = [], all_failed = None \<rparr>) = Inr w'
     \<and> product_ids w' = [''103'']
     \<and> events w' = []
     \<and> fs w' = \<lparr> batch_units = [(''1'', Some
                  [\<lparr> p_id = JInt 101, p_name = JStr ''a'', p_url_key = JStr ''a'', p_price = JInt 5,
                      p_description = ''a'', p_images = [JStr ''u''] \<rparr>,
                   \<lparr> p_id = JInt 102, p_name = JStr ''b'', p_url_key = JStr ''b'', p_price = JInt 7,
                      p_description = ''b'', p_images = [JStr ''v''] \<rparr>])],
               partitions = [], all_failed = None \<rparr>"
proof -
  let ?cfg = "\<lparr> batch_size = 1000, concurrent_requests = 50, max_retries = 5 \<rparr>"
  let ?fo = "\<lparr> batch_units = [(''1'', Some
                  [\<lparr> p_id = JInt 101, p_name = JStr ''a'', p_url_key = JStr ''a'', p_price = JInt 5,
                      p_description = ''a'', p_images = [JStr ''u''] \<rparr>,
                   \<lparr> p_id = JInt 102, p_name = JStr ''b'', p_url_key = JStr ''b'', p_price = JInt 7,
                      p_description = ''b'', p_images = [JStr ''v''] \<rparr>])],
               partitions = [], all_failed = None \<rparr>"
  let ?ids = "[''101'', ''102'', ''103'']"
  have s1: "str_int 101 = ''101''" "str_int 102 = ''102''" by code_simp+
  have crawled: "get_already_crawled_ids ?fo = {''101'', ''102''}"
    by (simp add: get_already_crawled_ids_def s1 insert_commute)
  have pend: "pending ?ids ?fo = [''103'']"
    by (simp add: pending_def crawled)
  have rs: "range_step (length [''103'']) (batch_size ?cfg) = Inr [0]"
    by (simp add: range_step_def)
  have one: "str_nat (0 div nat (batch_size ?cfg) + 1) = ''1''" by code_simp
  have "\<forall>s \<in> set [0]. exists_file (batch_units (fs (prepared ?ids ?fo)))
          (str_nat (s div nat (batch_size ?cfg) + 1))"
    using one by (simp add: prepared_fields exists_file_def)
  then have bl: "batch_loop ?cfg e [0] (prepared ?ids ?fo) = Inr (prepared ?ids ?fo)"
    by (rule batch_loop_all_present)
  have cr: "crawl ?cfg e (start_state ?ids ?fo) =
      Inr ((prepared ?ids ?fo)\<lparr> fs := save_failed_products_by_error
              (failed_products (stats (prepared ?ids ?fo))) (fs (prepared ?ids ?fo)) \<rparr>)"
    unfolding crawl_unfold pend rs using bl by simp
  have rp: "replayed ?fo = []" by (simp add: replayed_def)
  have ev: "events (prepared ?ids ?fo) = []"
    by (simp add: prepared_def filter_uncrawled_products_def deduplicate_input_ids_def
          start_state_def Let_def)
  show ?thesis
    unfolding cr
    by (simp add: prepared_fields rp save_failed_products_by_error_def pend ev)
qed
section \<open>Batches and their files\<close>

subsection \<open>The partition into batches\<close>






subsection \<open>The files a run writes\<close>








subsection \<open>The consolidated failure file\<close>

lemma merge_partition_all_failed: "all_failed (merge_partition grp fo) = all_failed fo"
  by (simp add: merge_partition_def Let_def)

lemma foldl_merge_all_failed:
  "all_failed (foldl (\<lambda>f grp. merge_partition grp f) fo groups) = all_failed fo"
  by (induction groups arbitrary: fo) (simp_all add: merge_partition_all_failed)












end
